theory Spec2Isabelle
  imports Complex_Main
begin

section \<open>JavaScript strings and errors\<close>

text \<open>
  A JavaScript string is a sequence of UTF-16 code units; a code unit is modelled as a
  natural number. \<open>js\<close> embeds an ASCII literal.
\<close>

type_synonym jstring = "nat list"

definition js :: "string \<Rightarrow> jstring" where
  "js s = map of_char s"

text \<open>An \<open>Error\<close> object, of which the code reads only \<open>message\<close>.\<close>

datatype error = Error (message: jstring)

text \<open>What awaiting a task gives: the value it returned (\<open>None\<close> is \<open>null\<close>) or the
  error it threw.\<close>

datatype 'r outcome = Returned "'r option" | Threw error

text \<open>How a promise is settled: \<open>resolve(v)\<close> or \<open>reject(e)\<close>.\<close>

datatype 'r settlement = Resolved "'r option" | Rejected error

section \<open>JavaScript numbers\<close>

text \<open>
  A JavaScript number is a double: a finite value, an infinity or \<open>NaN\<close>. The finite
  values are kept as the real numbers they denote; the operations used on them here
  (\<^verbatim>\<open><\<close>, \<^verbatim>\<open><=\<close>, \<open>Math.min\<close>, \<open>Math.max\<close>) are exact on doubles.
\<close>

datatype number = Num real | PlusInfinity | MinusInfinity | NaN

text \<open>\<^verbatim>\<open>a < b\<close> and \<^verbatim>\<open>a <= b\<close>: false when an operand is \<open>NaN\<close>.\<close>

fun number_lt :: "number \<Rightarrow> number \<Rightarrow> bool" where
  "number_lt (Num x) (Num y) = (x < y)"
| "number_lt (Num x) PlusInfinity = True"
| "number_lt MinusInfinity (Num y) = True"
| "number_lt MinusInfinity PlusInfinity = True"
| "number_lt _ _ = False"

fun number_le :: "number \<Rightarrow> number \<Rightarrow> bool" where
  "number_le (Num x) (Num y) = (x \<le> y)"
| "number_le (Num x) PlusInfinity = True"
| "number_le MinusInfinity (Num y) = True"
| "number_le MinusInfinity PlusInfinity = True"
| "number_le MinusInfinity MinusInfinity = True"
| "number_le PlusInfinity PlusInfinity = True"
| "number_le _ _ = False"

text \<open>\<open>Math.min(a, b)\<close> and \<open>Math.max(a, b)\<close>: \<open>NaN\<close> when an operand is \<open>NaN\<close>.\<close>

fun Math_min :: "number \<Rightarrow> number \<Rightarrow> number" where
  "Math_min NaN _ = NaN"
| "Math_min _ NaN = NaN"
| "Math_min MinusInfinity _ = MinusInfinity"
| "Math_min _ MinusInfinity = MinusInfinity"
| "Math_min PlusInfinity b = b"
| "Math_min a PlusInfinity = a"
| "Math_min (Num x) (Num y) = Num (min x y)"

fun Math_max :: "number \<Rightarrow> number \<Rightarrow> number" where
  "Math_max NaN _ = NaN"
| "Math_max _ NaN = NaN"
| "Math_max PlusInfinity _ = PlusInfinity"
| "Math_max _ PlusInfinity = PlusInfinity"
| "Math_max MinusInfinity b = b"
| "Math_max a MinusInfinity = a"
| "Math_max (Num x) (Num y) = Num (max x y)"

text \<open>A number is falsy when it is zero or \<open>NaN\<close>.\<close>

definition falsy :: "number \<Rightarrow> bool" where
  "falsy a = (a = Num 0 \<or> a = NaN)"

section \<open>ProcessQueue\<close>

text \<open>
  \<open>class ProcessQueue\<close>. \<open>running\<close> is a JavaScript \<open>Set\<close> of task ids, kept as the
  list of its members in insertion order; \<open>queue\<close> is the array of waiting items. An item
  carries its task (opaque to the queue) and its id; its \<open>resolve\<close>/\<open>reject\<close> callbacks
  are the settlement that \<open>executeTask\<close> yields. \<open>maxConcurrent\<close> holds whatever number
  was assigned to it: nothing rounds it.
\<close>

record 'a queueItem =
  task :: 'a
  item_id :: jstring

record 'a ProcessQueue =
  maxConcurrent :: number
  running :: "jstring list"
  queue :: "'a queueItem list"

definition set_add :: "'k \<Rightarrow> 'k list \<Rightarrow> 'k list" where
  "set_add x xs = (if x \<in> set xs then xs else xs @ [x])"

definition set_delete :: "'k \<Rightarrow> 'k list \<Rightarrow> 'k list" where
  "set_delete x xs = removeAll x xs"

text \<open>\<open>running.size\<close>, a number.\<close>

definition set_size :: "'k list \<Rightarrow> number" where
  "set_size xs = Num (real (length xs))"

text \<open>\<open>constructor(maxConcurrent = null)\<close>: \<open>maxConcurrent || Math.min(32, CPU_CORES * 2)\<close>,
  where \<open>CPU_CORES\<close> is the length of \<open>os.cpus()\<close>; \<open>null\<close> (\<open>None\<close>) is falsy.\<close>

definition ProcessQueue_new :: "int \<Rightarrow> number option \<Rightarrow> 'a ProcessQueue" where
  "ProcessQueue_new CPU_CORES mc =
     \<lparr> maxConcurrent = (case mc of None \<Rightarrow> Math_min (Num 32) (Num (of_int (CPU_CORES * 2)))
                        | Some m \<Rightarrow> if falsy m then Math_min (Num 32) (Num (of_int (CPU_CORES * 2)))
                                    else m),
       running = [], queue = [] \<rparr>"

text \<open>
  \<open>processQueue()\<close>: the \<open>while\<close> loop. Each round shifts the head of \<open>queue\<close>, adds its
  id to \<open>running\<close> and calls \<open>executeTask\<close> on it, which starts the task; the items
  started are returned in order with the new queue state.
\<close>

function processQueue :: "'a ProcessQueue \<Rightarrow> 'a ProcessQueue \<times> 'a queueItem list" where
  "processQueue q =
     (if queue q \<noteq> [] \<and> number_lt (set_size (running q)) (maxConcurrent q)
      then (let queueItem = hd (queue q);
                q' = q\<lparr> queue := tl (queue q),
                        running := set_add (item_id queueItem) (running q) \<rparr>;
                (q'', started) = processQueue q'
            in (q'', queueItem # started))
      else (q, []))"
  by pat_completeness auto
termination
  by (relation "measure (\<lambda>q. length (queue q))") auto

declare processQueue.simps [simp del]

text \<open>\<open>setMaxConcurrent(max)\<close>: \<open>Math.max(1, Math.min(32, max))\<close>, then \<open>processQueue()\<close>.
  The argument is taken as the number that \<open>Math.min\<close> converts it to.\<close>

definition clamp :: "number \<Rightarrow> number" where
  "clamp mx = Math_max (Num 1) (Math_min (Num 32) mx)"

definition setMaxConcurrent :: "number \<Rightarrow> 'a ProcessQueue \<Rightarrow> 'a ProcessQueue \<times> 'a queueItem list" where
  "setMaxConcurrent mx q = processQueue (q\<lparr> maxConcurrent := clamp mx \<rparr>)"

text \<open>\<open>add(task)\<close>: the item (with the id drawn for it) is pushed and \<open>processQueue()\<close>
  runs.\<close>

definition add :: "'a queueItem \<Rightarrow> 'a ProcessQueue \<Rightarrow> 'a ProcessQueue \<times> 'a queueItem list" where
  "add queueItem q = processQueue (q\<lparr> queue := queue q @ [queueItem] \<rparr>)"

text \<open>
  \<open>executeTask(queueItem)\<close> after its \<open>await\<close>: the id leaves \<open>running\<close>, and the item's
  promise is resolved with the result, resolved with \<open>null\<close> when the error's message is
  the cancellation message, and rejected otherwise. The \<open>finally\<close> block schedules
  \<open>processQueue()\<close> with \<open>setImmediate\<close>, which runs as a later turn (\<open>Tick\<close> below).
\<close>

definition cancelled_message :: jstring where
  "cancelled_message = js ''Conversion was cancelled''"

definition settle :: "'r outcome \<Rightarrow> 'r settlement" where
  "settle out = (case out of
       Returned result \<Rightarrow> Resolved result
     | Threw e \<Rightarrow> if message e = cancelled_message then Resolved None else Rejected e)"

definition executeTask :: "'a queueItem \<Rightarrow> 'r outcome \<Rightarrow> 'a ProcessQueue \<Rightarrow> 'a ProcessQueue \<times> 'r settlement" where
  "executeTask queueItem out q =
     (q\<lparr> running := set_delete (item_id queueItem) (running q) \<rparr>, settle out)"

text \<open>\<open>getStatus()\<close>, without the constant \<open>cpuCores\<close>.\<close>

record queueStatus =
  st_maxConcurrent :: number
  st_running :: nat
  st_queued :: nat

definition getStatus :: "'a ProcessQueue \<Rightarrow> queueStatus" where
  "getStatus q = \<lparr> st_maxConcurrent = maxConcurrent q, st_running = length (running q),
                   st_queued = length (queue q) \<rparr>"

text \<open>
  The turns of the event loop that touch the queue: a call of \<open>add\<close>, the completion of a
  started task, the \<open>setImmediate\<close> callback, and a call of \<open>setMaxConcurrent\<close>.
\<close>

datatype ('a, 'r) qevent =
    Add "'a queueItem"
  | Complete "'a queueItem" "'r outcome"
  | Tick
  | SetMax number

fun qstep :: "('a, 'r) qevent \<Rightarrow> 'a ProcessQueue \<Rightarrow> 'a ProcessQueue" where
  "qstep (Add it) q = fst (add it q)"
| "qstep (Complete it out) q = fst (executeTask it out q)"
| "qstep Tick q = fst (processQueue q)"
| "qstep (SetMax n) q = fst (setMaxConcurrent n q)"

fun qrun :: "('a, 'r) qevent list \<Rightarrow> 'a ProcessQueue \<Rightarrow> 'a ProcessQueue" where
  "qrun [] q = q"
| "qrun (e # es) q = qrun es (qstep e q)"

text \<open>
  The running set is within the ceiling when it is empty or its last member passes the
  guard of the loop in \<open>processQueue\<close>, \<^verbatim>\<open>size - 1 < maxConcurrent\<close>. For a ceiling that is a
  whole number this is \<^verbatim>\<open>size <= maxConcurrent\<close>.
\<close>

definition within_ceiling :: "'a ProcessQueue \<Rightarrow> bool" where
  "within_ceiling q =
     (running q = [] \<or> number_lt (Num (real (length (running q) - 1))) (maxConcurrent q))"

text \<open>No \<open>setMaxConcurrent\<close> call of the run puts the ceiling below the number of tasks
  running when it is made.\<close>

fun never_below_running :: "('a, 'r) qevent list \<Rightarrow> 'a ProcessQueue \<Rightarrow> bool" where
  "never_below_running [] q = True"
| "never_below_running (e # es) q =
     ((case e of SetMax n \<Rightarrow> within_ceiling (q\<lparr> maxConcurrent := clamp n \<rparr>) | _ \<Rightarrow> True)
      \<and> never_below_running es (qstep e q))"

section \<open>Strings\<close>

text \<open>\<open>\s\<close> and \<open>trim()\<close>: JavaScript's white space and line terminators.\<close>

definition is_space :: "nat \<Rightarrow> bool" where
  "is_space c = (c = 9 \<or> c = 10 \<or> c = 11 \<or> c = 12 \<or> c = 13 \<or> c = 32 \<or> c = 160
     \<or> c = 5760 \<or> (8192 \<le> c \<and> c \<le> 8202) \<or> c = 8232 \<or> c = 8233 \<or> c = 8239
     \<or> c = 8287 \<or> c = 12288 \<or> c = 65279)"

definition trim :: "jstring \<Rightarrow> jstring" where
  "trim s = rev (dropWhile is_space (rev (dropWhile is_space s)))"

text \<open>\<open>String(n)\<close> for an integer, and for an exit code that may be \<open>null\<close>.\<close>

function show_nat :: "nat \<Rightarrow> jstring" where
  "show_nat n = (if n < 10 then [48 + n] else show_nat (n div 10) @ [48 + n mod 10])"
  by pat_completeness auto
termination
  by (relation "measure id") auto

declare show_nat.simps [simp del]

definition show_int :: "int \<Rightarrow> jstring" where
  "show_int i = (if i < 0 then 45 # show_nat (nat (- i)) else show_nat (nat i))"

definition show_code :: "int option \<Rightarrow> jstring" where
  "show_code c = (case c of None \<Rightarrow> js ''null'' | Some i \<Rightarrow> show_int i)"

section \<open>Regular expressions\<close>

text \<open>
  The regular expressions of the text functions, with the matching rules of JavaScript
  (backtracking, leftmost alternative first, greedy and lazy counts, captures,
  lookahead, word boundaries, the \<open>i\<close> flag). Characters are code units:
  \<open>!\<close> 33, \<open>"\<close> 34, \<open>'\<close> 39, \<open>,\<close> 44, \<open>.\<close> 46, \<open>:\<close> 58, \<open>;\<close> 59, \<open>?\<close> 63,
  the inverted exclamation mark 161, the inverted question mark 191, the capital
  accented vowels 193, 201, 205, 211, 218, capital N with tilde 209, capital U with
  diaeresis 220, the small accented vowels 225, 233, 237, 243, 250, the en and em dashes
  8211 and 8212, the ellipsis 8230.
\<close>

text \<open>\<open>\w\<close> is \<open>[A-Za-z0-9_]\<close>.\<close>

definition is_word :: "nat \<Rightarrow> bool" where
  "is_word c = ((48 \<le> c \<and> c \<le> 57) \<or> (65 \<le> c \<and> c \<le> 90) \<or> c = 95 \<or> (97 \<le> c \<and> c \<le> 122))"

text \<open>
  Under the \<open>i\<close> flag two characters match when their upper-case forms agree.
  \<open>canonicalize\<close> is that form for the code units up to 255 (the sharp s has none of
  one code unit and stays); beyond, it is the identity, which agrees with JavaScript
  whenever the other character is one of the patterns of this program (letters of ASCII
  and Latin-1, space, full stop). \<open>uncanonicalize\<close> is the lower-case form of an
  upper-case letter.
\<close>

definition canonicalize :: "nat \<Rightarrow> nat" where
  "canonicalize c =
     (if (97 \<le> c \<and> c \<le> 122) \<or> (224 \<le> c \<and> c \<le> 254 \<and> c \<noteq> 247) then c - 32
      else if c = 255 then 376 else if c = 181 then 924 else c)"

definition uncanonicalize :: "nat \<Rightarrow> nat" where
  "uncanonicalize c =
     (if (65 \<le> c \<and> c \<le> 90) \<or> (192 \<le> c \<and> c \<le> 222 \<and> c \<noteq> 215) then c + 32 else c)"

text \<open>A character class \<open>[...]\<close> or \<open>[^...]\<close>: ranges, \<open>\s\<close>, \<open>\w\<close>.\<close>

datatype citem = CRange nat nat | CSpace | CWord

datatype cclass = Cls "citem list" | NotCls "citem list"

fun in_item :: "nat \<Rightarrow> citem \<Rightarrow> bool" where
  "in_item c (CRange lo hi) = (lo \<le> c \<and> c \<le> hi)"
| "in_item c CSpace = is_space c"
| "in_item c CWord = is_word c"

definition in_items :: "bool \<Rightarrow> nat \<Rightarrow> citem list \<Rightarrow> bool" where
  "in_items ic c items =
     (list_ex (in_item c) items
      \<or> (ic \<and> (list_ex (in_item (canonicalize c)) items
                \<or> list_ex (in_item (uncanonicalize c)) items)))"

fun in_class :: "bool \<Rightarrow> nat \<Rightarrow> cclass \<Rightarrow> bool" where
  "in_class ic c (Cls items) = in_items ic c items"
| "in_class ic c (NotCls items) = (\<not> in_items ic c items)"

text \<open>
  The patterns: a literal string, one character of a class, a class with a count
  \<open>{min,max}\<close> (greedy or lazy; \<open>*\<close> is \<open>{0,}\<close>, \<open>+\<close> is \<open>{1,}\<close>), a counted
  capturing group around a class as in \<open>([!?]){2,}\<close>, sequence, alternative, capturing
  group, \<open>(?=...)\<close>, \<open>(?!...)\<close>, \<open>(?<=[...])\<close>, \<open>^\<close>, \<open>$\<close> and \<open>\b\<close>. Every
  counted item of the source is a class.
\<close>

datatype regex =
    Lit jstring
  | One cclass
  | Rep cclass nat "nat option" bool
  | RepGroup nat cclass nat "nat option" bool
  | Seq regex regex
  | Alt regex regex
  | Group nat regex
  | Ahead regex
  | NotAhead regex
  | Behind cclass
  | Bol
  | Eol
  | WordB

type_synonym captures = "(nat \<times> jstring) list"

type_synonym matched = "(jstring \<times> captures) option"

fun lit_prefix :: "bool \<Rightarrow> jstring \<Rightarrow> jstring \<Rightarrow> bool" where
  "lit_prefix ic [] rest = True"
| "lit_prefix ic (p # ps) [] = False"
| "lit_prefix ic (p # ps) (c # cs) =
     ((if ic then canonicalize p = canonicalize c else p = c) \<and> lit_prefix ic ps cs)"

text \<open>How many characters of the class stand at the front of the text.\<close>

fun run_length :: "bool \<Rightarrow> cclass \<Rightarrow> jstring \<Rightarrow> nat" where
  "run_length ic cl [] = 0"
| "run_length ic cl (c # cs) = (if in_class ic c cl then Suc (run_length ic cl cs) else 0)"

text \<open>The character before the position reached after consuming \<open>s\<close>.\<close>

definition last_char :: "nat option \<Rightarrow> jstring \<Rightarrow> nat option" where
  "last_char prev s = (if s = [] then prev else Some (last s))"

text \<open>The counts a quantifier tries, in its order of preference, and the first of them
  for which the rest of the pattern matches.\<close>

definition counts :: "nat \<Rightarrow> nat option \<Rightarrow> bool \<Rightarrow> nat \<Rightarrow> nat list" where
  "counts mn mx greedy avail =
     (let top = (case mx of None \<Rightarrow> avail | Some m \<Rightarrow> min m avail)
      in if greedy then rev [mn..<Suc top] else [mn..<Suc top])"

fun first_count :: "nat list \<Rightarrow> (nat \<Rightarrow> matched) \<Rightarrow> matched" where
  "first_count [] k = None"
| "first_count (n # ns) k = (case k n of Some r \<Rightarrow> Some r | None \<Rightarrow> first_count ns k)"

text \<open>
  The matcher, at one position: \<open>prev\<close> is the character before it, \<open>rest\<close> the text from
  it on, \<open>k\<close> what remains to be matched after the pattern. The result is the text left
  after the whole match, with the captures.
\<close>

fun matcher :: "regex \<Rightarrow> bool \<Rightarrow> nat option \<Rightarrow> jstring \<Rightarrow> captures
                 \<Rightarrow> (nat option \<Rightarrow> jstring \<Rightarrow> captures \<Rightarrow> matched) \<Rightarrow> matched" where
  "matcher (Lit ps) ic prev rest caps k =
     (if lit_prefix ic ps rest
      then k (last_char prev (take (length ps) rest)) (drop (length ps) rest) caps else None)"
| "matcher (One cl) ic prev rest caps k =
     (case rest of [] \<Rightarrow> None
      | c # cs \<Rightarrow> if in_class ic c cl then k (Some c) cs caps else None)"
| "matcher (Rep cl mn mx greedy) ic prev rest caps k =
     first_count (counts mn mx greedy (run_length ic cl rest))
       (\<lambda>n. k (last_char prev (take n rest)) (drop n rest) caps)"
| "matcher (RepGroup g cl mn mx greedy) ic prev rest caps k =
     first_count (counts mn mx greedy (run_length ic cl rest))
       (\<lambda>n. k (last_char prev (take n rest)) (drop n rest)
                (if n = 0 then caps else (g, [rest ! (n - 1)]) # caps))"
| "matcher (Seq a b) ic prev rest caps k =
     matcher a ic prev rest caps (\<lambda>prev' rest' caps'. matcher b ic prev' rest' caps' k)"
| "matcher (Alt a b) ic prev rest caps k =
     (case matcher a ic prev rest caps k of
        Some r \<Rightarrow> Some r
      | None \<Rightarrow> matcher b ic prev rest caps k)"
| "matcher (Group g a) ic prev rest caps k =
     matcher a ic prev rest caps
       (\<lambda>prev' rest' caps'. k prev' rest' ((g, take (length rest - length rest') rest) # caps'))"
| "matcher (Ahead a) ic prev rest caps k =
     (case matcher a ic prev rest caps (\<lambda>prev' rest' caps'. Some (rest', caps')) of
        None \<Rightarrow> None
      | Some (rest', caps') \<Rightarrow> k prev rest caps')"
| "matcher (NotAhead a) ic prev rest caps k =
     (case matcher a ic prev rest caps (\<lambda>prev' rest' caps'. Some (rest', caps')) of
        None \<Rightarrow> k prev rest caps
      | Some found \<Rightarrow> None)"
| "matcher (Behind cl) ic prev rest caps k =
     (case prev of None \<Rightarrow> None
      | Some c \<Rightarrow> if in_class ic c cl then k prev rest caps else None)"
| "matcher Bol ic prev rest caps k = (if prev = None then k prev rest caps else None)"
| "matcher Eol ic prev rest caps k = (if rest = [] then k prev rest caps else None)"
| "matcher WordB ic prev rest caps k =
     (if (case prev of None \<Rightarrow> False | Some c \<Rightarrow> is_word c)
         \<noteq> (case rest of [] \<Rightarrow> False | c # cs \<Rightarrow> is_word c)
      then k prev rest caps else None)"

text \<open>A match at this position: its length and captures.\<close>

definition match_here :: "regex \<Rightarrow> bool \<Rightarrow> nat option \<Rightarrow> jstring \<Rightarrow> (nat \<times> captures) option" where
  "match_here r ic prev rest =
     (case matcher r ic prev rest [] (\<lambda>prev' rest' caps. Some (rest', caps)) of
        None \<Rightarrow> None
      | Some (rest', caps) \<Rightarrow> Some (length rest - length rest', caps))"

text \<open>
  All the matches of a global regex, as \<open>replace\<close>, \<open>match\<close> and repeated \<open>exec\<close> find
  them: each at the first position from the end of the one before where the pattern
  matches, one character further after an empty match. A match is its index, its length
  and its captures; \<open>pending\<close> counts the characters still inside the last match.
\<close>

fun scan :: "regex \<Rightarrow> bool \<Rightarrow> nat option \<Rightarrow> jstring \<Rightarrow> nat \<Rightarrow> nat
              \<Rightarrow> (nat \<times> nat \<times> captures) list" where
  "scan r ic prev [] pending pos =
     (if pending = 0
      then (case match_here r ic prev [] of
              None \<Rightarrow> []
            | Some (len, caps) \<Rightarrow> [(pos, len, caps)])
      else [])"
| "scan r ic prev (c # cs) pending pos =
     (if pending > 0 then scan r ic (Some c) cs (pending - 1) (pos + 1)
      else (case match_here r ic prev (c # cs) of
              None \<Rightarrow> scan r ic (Some c) cs 0 (pos + 1)
            | Some (len, caps) \<Rightarrow> (pos, len, caps) # scan r ic (Some c) cs (len - 1) (pos + 1)))"

text \<open>The first match from a position on: the characters skipped, the length, the
  captures.\<close>

fun search :: "regex \<Rightarrow> bool \<Rightarrow> nat option \<Rightarrow> jstring \<Rightarrow> (nat \<times> nat \<times> captures) option" where
  "search r ic prev [] =
     (case match_here r ic prev [] of
        None \<Rightarrow> None
      | Some (len, caps) \<Rightarrow> Some (0, len, caps))"
| "search r ic prev (c # cs) =
     (case match_here r ic prev (c # cs) of
        Some (len, caps) \<Rightarrow> Some (0, len, caps)
      | None \<Rightarrow> (case search r ic (Some c) cs of
                   None \<Rightarrow> None
                 | Some (skip, len, caps) \<Rightarrow> Some (Suc skip, len, caps)))"

text \<open>\<open>regex.test(s)\<close> for a regex without the \<open>g\<close> flag.\<close>

definition test :: "regex \<Rightarrow> bool \<Rightarrow> jstring \<Rightarrow> bool" where
  "test r ic s = (search r ic None s \<noteq> None)"

text \<open>\<open>regex.test(s)\<close> for a regex with the \<open>g\<close> flag: the search starts at
  \<open>lastIndex\<close>, which becomes the end of the match, or 0 when there is none.\<close>

definition test_global :: "regex \<Rightarrow> bool \<Rightarrow> jstring \<Rightarrow> nat \<Rightarrow> bool \<times> nat" where
  "test_global r ic s lastIndex =
     (if lastIndex > length s then (False, 0)
      else (case search r ic (if lastIndex = 0 then None else Some (s ! (lastIndex - 1)))
                   (drop lastIndex s) of
              None \<Rightarrow> (False, 0)
            | Some (skip, len, caps) \<Rightarrow> (True, lastIndex + skip + len)))"

definition substring :: "nat \<Rightarrow> nat \<Rightarrow> jstring \<Rightarrow> jstring" where
  "substring a b s = take (max a b - min a b) (drop (min a b) s)"

text \<open>A capture, the empty string when the group took no part in the match.\<close>

definition capture :: "captures \<Rightarrow> nat \<Rightarrow> jstring" where
  "capture caps g = (case map_of caps g of None \<Rightarrow> [] | Some x \<Rightarrow> x)"

text \<open>
  \<open>s.replace(regex, f)\<close> for a global regex and a callback, which gets the matched text
  and the captures and may keep a state: the text between the matches is kept, each
  match gives way to what the callback returns, in order.
\<close>

fun splice :: "(jstring \<Rightarrow> captures \<Rightarrow> 'st \<Rightarrow> jstring \<times> 'st) \<Rightarrow> jstring \<Rightarrow> nat
               \<Rightarrow> (nat \<times> nat \<times> captures) list \<Rightarrow> 'st \<Rightarrow> jstring \<times> 'st" where
  "splice f s pos [] st = (drop pos s, st)"
| "splice f s pos ((i, len, caps) # ms) st =
     (let (replacement, st') = f (substring i (i + len) s) caps st;
          (out, st'') = splice f s (i + len) ms st'
      in (substring pos i s @ replacement @ out, st''))"

definition replace_with ::
  "regex \<Rightarrow> bool \<Rightarrow> (jstring \<Rightarrow> captures \<Rightarrow> 'st \<Rightarrow> jstring \<times> 'st) \<Rightarrow> jstring \<Rightarrow> 'st
   \<Rightarrow> jstring \<times> 'st" where
  "replace_with r ic f s st = splice f s 0 (scan r ic None s 0 0) st"

text \<open>\<open>s.replace(regex, '...$1...')\<close> for a global regex without the \<open>i\<close> flag: the
  replacement is text and references to captures.\<close>

datatype part = Str jstring | Ref nat

definition expand :: "part list \<Rightarrow> captures \<Rightarrow> jstring" where
  "expand tpl caps = concat (map (\<lambda>p. case p of Str x \<Rightarrow> x | Ref g \<Rightarrow> capture caps g) tpl)"

definition replace :: "regex \<Rightarrow> part list \<Rightarrow> jstring \<Rightarrow> jstring" where
  "replace r tpl s = fst (replace_with r False (\<lambda>matched caps u. (expand tpl caps, u)) s ())"

text \<open>
  \<open>s.split(regex)\<close>: the pieces between the matches, each separator leaving the captures
  of \<open>groups\<close> behind it; an empty match at the start of a piece is passed over, and no
  match is tried at the end of the text.
\<close>

fun split_loop :: "regex \<Rightarrow> bool \<Rightarrow> nat list \<Rightarrow> nat option \<Rightarrow> jstring \<Rightarrow> nat \<Rightarrow> jstring
                   \<Rightarrow> jstring list" where
  "split_loop r ic groups prev [] pending piece = [rev piece]"
| "split_loop r ic groups prev (c # cs) pending piece =
     (if pending > 0 then split_loop r ic groups (Some c) cs (pending - 1) piece
      else (case match_here r ic prev (c # cs) of
              None \<Rightarrow> split_loop r ic groups (Some c) cs 0 (c # piece)
            | Some (len, caps) \<Rightarrow>
                if len = 0 \<and> piece = [] then split_loop r ic groups (Some c) cs 0 (c # piece)
                else rev piece # map (capture caps) groups
                     @ (if len = 0 then split_loop r ic groups (Some c) cs 0 [c]
                        else split_loop r ic groups (Some c) cs (len - 1) [])))"

definition split :: "regex \<Rightarrow> bool \<Rightarrow> nat list \<Rightarrow> jstring \<Rightarrow> jstring list" where
  "split r ic groups s =
     (if s = [] then (if match_here r ic None [] \<noteq> None then [] else [[]])
      else split_loop r ic groups None s 0 [])"

text \<open>Shorthands: a class of single characters and its complement, \<open>\s\<close>,
  \<open>[A-Z]\<close> with the capital accented letters, the same with the two inverted marks,
  sequences and alternatives of several patterns.\<close>

definition chars :: "nat list \<Rightarrow> cclass" where
  "chars cs = Cls (map (\<lambda>c. CRange c c) cs)"

definition not_chars :: "nat list \<Rightarrow> cclass" where
  "not_chars cs = NotCls (map (\<lambda>c. CRange c c) cs)"

definition space :: cclass where
  "space = Cls [CSpace]"

definition upper :: cclass where
  "upper = Cls [CRange 65 90, CRange 193 193, CRange 201 201, CRange 205 205, CRange 211 211,
               CRange 218 218, CRange 209 209, CRange 220 220]"

definition upper_or_opening :: cclass where
  "upper_or_opening = Cls [CRange 65 90, CRange 193 193, CRange 201 201, CRange 205 205,
     CRange 211 211, CRange 218 218, CRange 209 209, CRange 220 220, CRange 161 161,
     CRange 191 191]"

fun seq :: "regex list \<Rightarrow> regex" where
  "seq [] = Lit []"
| "seq [r] = r"
| "seq (r # rs) = Seq r (seq rs)"

fun alt :: "regex list \<Rightarrow> regex" where
  "alt [] = Lit []"
| "alt [r] = r"
| "alt (r # rs) = Alt r (alt rs)"

section \<open>Text normalisation and sentence splitting\<close>

text \<open>
  \<open>normalizeTextForTTS\<close>, one \<open>replace\<close> per line of the source, in its order:
  \<^verbatim>\<open>/\n\s*\n/g\<close> to \<^verbatim>\<open>'. '\<close>; \<^verbatim>\<open>/\n/g\<close> to a space; the class of \<open>"\<close> and \<open>'\<close> to \<open>"\<close>;
  the dashes to \<open>-\<close>; the ellipsis to three full stops; the doubled opening and closing
  marks to one; the question and exclamation contents trimmed by the two callbacks;
  \<^verbatim>\<open>/\u00BF\s*([^?]*?)(?:\s*[.])(?!\?)/g\<close> to \<^verbatim>\<open>'\u00BF$1?'\<close> and the same for exclamations;
  \<^verbatim>\<open>/:\s*$/g\<close> to \<open>.\<close>; \<^verbatim>\<open>/:\s*(?=[A-Z...])/g\<close> to \<^verbatim>\<open>'. '\<close>;
  \<^verbatim>\<open>/\s+([.!?\u00BF\u00A1,;:])/g\<close> to \<^verbatim>\<open>'$1'\<close>; \<^verbatim>\<open>/([.!?])\s*([\u00BF\u00A1])/g\<close> to \<^verbatim>\<open>'$1 $2'\<close>;
  \<^verbatim>\<open>/([.!?])\s*(?=[A-Z...])/g\<close> and \<^verbatim>\<open>/([,:;])\s*(?=[A-Z...])/g\<close> to \<^verbatim>\<open>'$1 '\<close>;
  \<^verbatim>\<open>/\.{4,}/g\<close> to three full stops; \<^verbatim>\<open>/\.{2}(?!\.)/g\<close> to one; \<^verbatim>\<open>/([!?]){2,}/g\<close> to
  \<^verbatim>\<open>'$1'\<close>; \<^verbatim>\<open>/\s+/g\<close> to a space, and \<open>trim()\<close>.
\<close>

definition normalizeTextForTTS :: "jstring \<Rightarrow> jstring" where
  "normalizeTextForTTS text =
     (let normalized = text;
          normalized = replace (seq [Lit [10], Rep space 0 None True, Lit [10]])
             [Str (js ''. '')] normalized;
          normalized = replace (Lit [10]) [Str (js '' '')] normalized;
          normalized = replace (One (chars [34, 39])) [Str [34]] normalized;
          normalized = replace (One (chars [8211, 8212])) [Str (js ''-'')] normalized;
          normalized = replace (One (chars [8230])) [Str (js ''...'')] normalized;
          normalized = replace (Lit [191, 161]) [Str [191]] normalized;
          normalized = replace (Lit [161, 191]) [Str [161]] normalized;
          normalized = replace (Lit [63, 33]) [Str [63]] normalized;
          normalized = replace (Lit [33, 63]) [Str [33]] normalized;
          normalized = fst (replace_with
             (seq [Lit [191], Group 1 (Rep (not_chars [63]) 0 None False), Lit [63]]) False
             (\<lambda>matched caps u. ([191] @ trim (capture caps 1) @ [63], u)) normalized ());
          normalized = fst (replace_with
             (seq [Lit [161], Group 1 (Rep (not_chars [33]) 0 None False), Lit [33]]) False
             (\<lambda>matched caps u. ([161] @ trim (capture caps 1) @ [33], u)) normalized ());
          normalized = replace
             (seq [Lit [191], Rep space 0 None True, Group 1 (Rep (not_chars [63]) 0 None False),
                   seq [Rep space 0 None True, One (chars [46])], NotAhead (Lit [63])])
             [Str [191], Ref 1, Str [63]] normalized;
          normalized = replace
             (seq [Lit [161], Rep space 0 None True, Group 1 (Rep (not_chars [33]) 0 None False),
                   seq [Rep space 0 None True, One (chars [46])], NotAhead (Lit [33])])
             [Str [161], Ref 1, Str [33]] normalized;
          normalized = replace (seq [Lit [58], Rep space 0 None True, Eol])
             [Str (js ''.'')] normalized;
          normalized = replace (seq [Lit [58], Rep space 0 None True, Ahead (One upper)])
             [Str (js ''. '')] normalized;
          normalized = replace
             (seq [Rep space 1 None True,
                   Group 1 (One (chars [46, 33, 63, 191, 161, 44, 59, 58]))])
             [Ref 1] normalized;
          normalized = replace
             (seq [Group 1 (One (chars [46, 33, 63])), Rep space 0 None True,
                   Group 2 (One (chars [191, 161]))])
             [Ref 1, Str (js '' ''), Ref 2] normalized;
          normalized = replace
             (seq [Group 1 (One (chars [46, 33, 63])), Rep space 0 None True, Ahead (One upper)])
             [Ref 1, Str (js '' '')] normalized;
          normalized = replace
             (seq [Group 1 (One (chars [44, 58, 59])), Rep space 0 None True, Ahead (One upper)])
             [Ref 1, Str (js '' '')] normalized;
          normalized = replace (Rep (chars [46]) 4 None True) [Str (js ''...'')] normalized;
          normalized = replace (seq [Rep (chars [46]) 2 (Some 2) True, NotAhead (Lit [46])])
             [Str (js ''.'')] normalized;
          normalized = replace (RepGroup 1 (chars [33, 63]) 2 None True) [Ref 1] normalized;
          normalized = trim (replace (Rep space 1 None True) [Str (js '' '')] normalized)
      in normalized)"

subsection \<open>splitSentences, step 2: abbreviations\<close>

definition abbreviations :: "jstring list" where
  "abbreviations =
     [js ''Sr'', js ''Sra'', js ''Srta'', js ''Dr'', js ''Dra'', js ''Prof'', js ''Profa'',
      js ''Lic'', js ''Licda'', js ''Ing'', js ''Inga'', js ''Arq'', js ''Arqa'', js ''Mtro'',
      js ''Mtra'', js ''etc'', js ''vs'', js ''p.ej'', js ''i.e'', js ''cf'', js ''vol'',
      js ''cap'', js ''art'', js ''n'' @ [250] @ js ''m'', js ''p'' @ [225] @ js ''g'', js ''ed'',
      js ''op.cit'', js ''Mr'', js ''Mrs'', js ''Ms'', js ''Miss'', js ''Inc'', js ''Ltd'',
      js ''Corp'', js ''Co'', js ''e.g'']"

text \<open>
  The state of the protection loop: the text, \<open>protectionMap\<close> (its entries in insertion
  order) and \<open>protectionCounter\<close>. For each abbreviation the regex is
  \<^verbatim>\<open>\bABBREV\b\<close> with the flags \<open>gi\<close>, its one full stop (none has two) escaped; the
  callback puts the next placeholder for the matched text.
\<close>

record protection =
  protectedText :: jstring
  protectionMap :: "(jstring \<times> jstring) list"
  protectionCounter :: nat

definition placeholder_of :: "nat \<Rightarrow> jstring" where
  "placeholder_of n = js ''__ABBREV_'' @ show_nat n @ js ''__''"

definition protect_callback ::
  "jstring \<Rightarrow> captures \<Rightarrow> (jstring \<times> jstring) list \<times> nat
   \<Rightarrow> jstring \<times> (jstring \<times> jstring) list \<times> nat" where
  "protect_callback matched caps st =
     (placeholder_of (snd st), (fst st @ [(placeholder_of (snd st), matched)], Suc (snd st)))"

definition protect_one :: "jstring \<Rightarrow> protection \<Rightarrow> protection" where
  "protect_one abbrev p =
     (let (text, pm, n) =
            replace_with (seq [WordB, Lit abbrev, WordB]) True protect_callback
              (protectedText p) (protectionMap p, protectionCounter p)
      in \<lparr> protectedText = text, protectionMap = pm, protectionCounter = n \<rparr>)"

definition protect :: "jstring \<Rightarrow> protection" where
  "protect normalizedText =
     fold protect_one abbreviations
       \<lparr> protectedText = normalizedText, protectionMap = [], protectionCounter = 0 \<rparr>"

subsection \<open>splitSentences, step 3: the sentences\<close>

text \<open>\<^verbatim>\<open>/([.!?]+)\s+(?=[A-Z\u00C1\u00C9\u00CD\u00D3\u00DA\u00D1\u00DC\u00A1\u00BF]|$)/g\<close>\<close>

definition sentencePattern :: regex where
  "sentencePattern =
     seq [Group 1 (Rep (chars [46, 33, 63]) 1 None True), Rep space 1 None True,
          Ahead (Alt (One upper_or_opening) Eol)]"

text \<open>
  The \<open>while\<close> loop over \<open>sentencePattern.exec\<close>, given the successive matches: a sentence
  runs from \<open>lastIndex\<close> to the end of the punctuation. After an empty match \<open>exec\<close>
  would return the same match for ever: the loop does not end, which is \<open>None\<close>.
\<close>

fun exec_loop :: "jstring \<Rightarrow> (nat \<times> nat \<times> captures) list \<Rightarrow> nat \<Rightarrow> jstring list
                  \<Rightarrow> (nat \<times> jstring list) option" where
  "exec_loop s [] lastIndex sentences = Some (lastIndex, sentences)"
| "exec_loop s ((i, len, caps) # ms) lastIndex sentences =
     (if len = 0 then None
      else (let sentenceEnd = i + length (capture caps 1);
                sentence = trim (substring lastIndex sentenceEnd s)
            in exec_loop s ms sentenceEnd
                 (if length sentence > 0 then sentences @ [sentence] else sentences)))"

text \<open>The loop, the rest of the text as the last sentence, and the fallback
  \<^verbatim>\<open>split(/(?<=[.!?])\s+(?=[A-Z\u00C1\u00C9\u00CD\u00D3\u00DA\u00D1\u00DC\u00A1\u00BF])/)\<close> when there is no sentence.\<close>

definition extract_sentences :: "jstring \<Rightarrow> jstring list option" where
  "extract_sentences protected =
     (case exec_loop protected (scan sentencePattern False None protected 0 0) 0 [] of
        None \<Rightarrow> None
      | Some (lastIndex, sentences) \<Rightarrow>
          (let sentences =
                 (if lastIndex < length protected
                  then (let remainingSentence = trim (drop lastIndex protected)
                        in if length remainingSentence > 0
                           then sentences @ [remainingSentence] else sentences)
                  else sentences);
               sentences =
                 (if length sentences = 0
                  then sentences @ filter (\<lambda>s. length (trim s) > 0)
                         (split (seq [Behind (chars [46, 33, 63]), Rep space 1 None True,
                                      Ahead (One upper_or_opening)]) False [] protected)
                  else sentences)
           in Some sentences))"

subsection \<open>enhanceSentenceForTTS\<close>

text \<open>\<^verbatim>\<open>/\b(w1|w2|...)\b/i\<close>\<close>

definition word_i :: "jstring list \<Rightarrow> regex" where
  "word_i ws = seq [WordB, Group 1 (alt (map Lit ws)), WordB]"

definition enhanceSentenceForTTS :: "jstring \<Rightarrow> jstring" where
  "enhanceSentenceForTTS sentence =
     (let enhanced = trim (replace (Rep space 1 None True) [Str (js '' '')]
                       (replace (Rep (chars [13, 10, 9]) 1 None True) [Str (js '' '')] sentence))
      in if enhanced = [] then enhanced
         else
           (let hasEndingPunctuation =
                  test (seq [One (chars [46, 33, 63, 8230]), Eol]) False enhanced;
                enhanced =
                  (if \<not> hasEndingPunctuation
                   then (if test (seq [Bol, Lit [191]]) False enhanced
                            \<or> test (word_i [js ''qu'' @ [233], js ''qui'' @ [233] @ js ''n'',
                                 js ''cu'' @ [225] @ js ''ndo'', js ''d'' @ [243] @ js ''nde'',
                                 js ''c'' @ [243] @ js ''mo'', js ''por qu'' @ [233],
                                 js ''cu'' @ [225] @ js ''l'']) True enhanced
                         then enhanced @ js ''?''
                         else if test (seq [Bol, Lit [161]]) False enhanced
                            \<or> test (word_i [js ''wow'', js ''incre'' @ [237] @ js ''ble'',
                                 js ''excelente'', js ''fant'' @ [225] @ js ''stico'']) True enhanced
                         then enhanced @ js ''!''
                         else enhanced @ js ''.'')
                   else enhanced);
                enhanced =
                  (if test (seq [Lit [63], Eol]) False enhanced
                      \<and> \<not> test (seq [Bol, Lit [191]]) False enhanced
                      \<and> \<not> test (word_i [js ''yes'', js ''no'', js ''si'', js ''s'' @ [237]])
                             True enhanced
                   then [191] @ enhanced else enhanced);
                enhanced =
                  (if test (seq [Lit [33], Eol]) False enhanced
                      \<and> \<not> test (seq [Bol, Lit [161]]) False enhanced
                      \<and> test (word_i [js ''wow'', js ''incre'' @ [237] @ js ''ble'',
                                 js ''excelente'', js ''fant'' @ [225] @ js ''stico'', js ''bravo'',
                                 js ''genial'']) True enhanced
                   then [161] @ enhanced else enhanced)
            in enhanced))"

subsection \<open>splitLongSentence\<close>

text \<open>\<^verbatim>\<open>/([,:;]\s+(?:pero|sin embargo|...|puesto que))/gi\<close>\<close>

definition naturalBreaks :: regex where
  "naturalBreaks =
     Group 1 (seq [One (chars [44, 58, 59]), Rep space 1 None True,
       alt (map Lit [js ''pero'', js ''sin embargo'', js ''adem'' @ [225] @ js ''s'',
         js ''por tanto'', js ''por lo tanto'', js ''no obstante'', js ''mientras'',
         js ''cuando'', js ''donde'', js ''como'', js ''que'', js ''si'', js ''aunque'',
         js ''porque'', js ''ya que'', js ''dado que'', js ''puesto que''])])"

text \<open>The \<open>for\<close> loop over the parts; \<open>naturalBreaks.test(part)\<close> moves the \<open>lastIndex\<close>
  of the regex, which the loop carries from one part to the next.\<close>

fun splitLong_loop :: "jstring list \<Rightarrow> nat \<Rightarrow> jstring \<Rightarrow> jstring list
                       \<Rightarrow> jstring \<times> jstring list" where
  "splitLong_loop [] lastIndex currentChunk chunks = (currentChunk, chunks)"
| "splitLong_loop (part # parts) lastIndex currentChunk chunks =
     (let (found, lastIndex') = test_global naturalBreaks True part lastIndex
      in if found then splitLong_loop parts lastIndex' (currentChunk @ part) chunks
         else if currentChunk \<noteq> [] \<and> length (currentChunk @ part) > 200
         then splitLong_loop parts lastIndex' part
                (if trim currentChunk \<noteq> []
                 then chunks @ [enhanceSentenceForTTS (trim currentChunk)] else chunks)
         else splitLong_loop parts lastIndex' (currentChunk @ part) chunks)"

definition splitLongSentence :: "jstring \<Rightarrow> jstring list" where
  "splitLongSentence sentence =
     (let parts = split naturalBreaks True [1] sentence;
          (currentChunk, chunks) = splitLong_loop parts 0 [] [];
          chunks = (if trim currentChunk \<noteq> []
                    then chunks @ [enhanceSentenceForTTS (trim currentChunk)] else chunks)
      in if length chunks > 0 then chunks else [sentence])"

subsection \<open>mergeShortFragments\<close>

text \<open>\<^verbatim>\<open>(sentence.match(/\b\w+\b/g) || []).length\<close>\<close>

definition wordCount :: "jstring \<Rightarrow> nat" where
  "wordCount sentence =
     length (scan (seq [WordB, Rep (Cls [CWord]) 1 None True, WordB]) False None sentence 0 0)"

text \<open>The \<open>for\<close> loop: \<open>merged\<close> so far and the sentences from index \<open>i\<close> on.\<close>

fun mergeShortFragments_loop :: "jstring list \<Rightarrow> jstring list \<Rightarrow> jstring list" where
  "mergeShortFragments_loop merged [] = merged"
| "mergeShortFragments_loop merged (sentence # rest) =
     (if wordCount sentence < 4 \<and> length sentence < 30
      then (if length merged > 0
            then mergeShortFragments_loop
                   (butlast merged @ [last merged @ js '' '' @ sentence]) rest
            else (case rest of
                    nextSentence # rest' \<Rightarrow>
                      mergeShortFragments_loop (merged @ [sentence @ js '' '' @ nextSentence]) rest'
                  | [] \<Rightarrow> mergeShortFragments_loop (merged @ [sentence]) rest))
      else mergeShortFragments_loop (merged @ [sentence]) rest)"

definition mergeShortFragments :: "jstring list \<Rightarrow> jstring list" where
  "mergeShortFragments sentences = mergeShortFragments_loop [] sentences"

subsection \<open>splitSentences\<close>

text \<open>Step 4 for one sentence: the placeholders are replaced by the texts they stand
  for (which hold letters and full stops only, so no \<open>$\<close> pattern), the sentence is
  enhanced, dropped if it has at most three characters and split if it has more than
  400.\<close>

definition restore :: "(jstring \<times> jstring) list \<Rightarrow> jstring \<Rightarrow> jstring" where
  "restore pm sentence =
     fold (\<lambda>(placeholder, original). replace (Lit placeholder) [Str original]) pm sentence"

definition process_sentence :: "(jstring \<times> jstring) list \<Rightarrow> jstring \<Rightarrow> jstring list" where
  "process_sentence pm sentence =
     (let sentence = enhanceSentenceForTTS (restore pm sentence)
      in if sentence \<noteq> [] \<and> length sentence > 3
         then (if length sentence > 400 then splitLongSentence sentence else [sentence])
         else [])"

text \<open>\<open>splitSentences(text)\<close>; \<open>None\<close> when the loop of step 3 does not end.\<close>

definition splitSentences :: "jstring \<Rightarrow> jstring list option" where
  "splitSentences text =
     (if trim text = [] then Some []
      else
        (let normalizedText = normalizeTextForTTS text;
             p = protect normalizedText
         in case extract_sentences (protectedText p) of
              None \<Rightarrow> None
            | Some sentences \<Rightarrow>
                Some (mergeShortFragments
                        (concat (map (process_sentence (protectionMap p)) sentences)))))"

section \<open>Conversion sessions\<close>

text \<open>
  The entries of \<open>activeConversions\<close>. The fields that the code leaves undefined until it
  sets them are options; \<open>completed\<close> and \<open>failed\<close>, which are only ever set to \<open>true\<close>
  and only read for truthiness, are booleans. A child process handle is its pid with its
  \<open>killed\<close> flag.
\<close>

record process =
  pid :: nat
  killed :: bool

record progress =
  p_completed :: nat
  p_total :: nat
  p_percentage :: number
  p_currentSentence :: "nat option"

record result =
  audio :: jstring
  model :: jstring
  sentenceCount :: nat

record conversion =
  conv_id :: jstring
  cancelled :: bool
  processes :: "process list"
  startTime :: int
  totalSentences :: nat
  progress :: "progress option"
  lastUpdate :: "int option"
  completed :: bool
  result :: "result option"
  completedAt :: "int option"
  error :: "jstring option"
  failed :: bool
  cancelledAt :: "int option"

type_synonym registry = "jstring \<rightharpoonup> conversion"

text \<open>\<open>conversionId && activeConversions.has(conversionId) &&
  activeConversions.get(conversionId).cancelled\<close>, for the non-empty ids that \<open>/convert\<close>
  draws.\<close>

definition is_cancelled :: "registry \<Rightarrow> jstring \<Rightarrow> bool" where
  "is_cancelled reg cid = (case reg cid of None \<Rightarrow> False | Some c \<Rightarrow> cancelled c)"

subsection \<open>One sentence task\<close>

text \<open>What a sentence task returns: \<open>{ index, audioFile, sentence }\<close>.\<close>

record sentenceResult =
  index :: nat
  audioFile :: jstring
  sentence :: jstring

text \<open>
  A task of \<open>generateAudioParallel\<close> is waiting in the queue, or has spawned its process
  (writing to the output file drawn for it) and awaits its end, or has settled its
  promise.
\<close>

datatype task_state =
    Queued
  | Spawned jstring
  | Settled "sentenceResult settlement"

text \<open>
  The task starts (\<open>createSentenceTask\<close> up to the \<open>await\<close>): a cancelled session throws
  the cancellation error, which \<open>executeTask\<close> settles; otherwise \<open>generateAudio\<close> spawns
  the process and pushes its handle to the session's \<open>processes\<close>, when the session is
  registered.
\<close>

definition task_start :: "jstring \<Rightarrow> process \<Rightarrow> jstring \<Rightarrow> registry \<Rightarrow> registry \<times> task_state" where
  "task_start cid piperProcess outputFile reg =
     (if is_cancelled reg cid then (reg, Settled (settle (Threw (Error cancelled_message))))
      else ((case reg cid of
               None \<Rightarrow> reg
             | Some c \<Rightarrow> reg(cid \<mapsto> c\<lparr> processes := processes c @ [piperProcess] \<rparr>)),
            Spawned outputFile))"

text \<open>\<open>generateAudio\<close>, the \<open>close\<close> handler: exit code \<open>0\<close> resolves with the output
  file; any other code (\<open>null\<close> after a signal) rejects, with the cancellation error
  when the session is cancelled.\<close>

definition generateAudio_close :: "int option \<Rightarrow> jstring \<Rightarrow> jstring \<Rightarrow> registry \<Rightarrow> jstring \<Rightarrow> error + jstring" where
  "generateAudio_close code stderr outputFile reg cid =
     (if code = Some 0 then Inr outputFile
      else if is_cancelled reg cid then Inl (Error cancelled_message)
      else Inl (Error (js ''Piper failed with code '' @ show_code code @ js '': '' @ stderr)))"

text \<open>
  \<open>Math.round((completedCount / sentences.length) * 100)\<close>, in double arithmetic. A
  positive double is kept as the pair \<open>(m, e)\<close> that stands for \<open>m * 2 ^ e\<close>, with a
  mantissa \<open>m\<close> of 53 bits. \<open>to_double p q\<close> is the double nearest to the quotient of
  the positive integers \<open>p\<close> and \<open>q\<close>, ties going to the even mantissa, which is what
  the division of two integers below \<open>2 ^ 53\<close> gives; \<open>times_100\<close> is the rounded
  product with 100, and \<open>Math_round\<close> the integer nearest to a double, halves going up.
  A division by zero gives \<open>NaN\<close> for \<open>0 / 0\<close> and infinity otherwise, which the
  product and \<open>Math.round\<close> keep.
\<close>

function bit_length :: "nat \<Rightarrow> nat" where
  "bit_length n = (if n = 0 then 0 else Suc (bit_length (n div 2)))"
  by pat_completeness auto
termination
  by (relation "measure id") auto

declare bit_length.simps [simp del]

definition round_half_even :: "nat \<Rightarrow> nat \<Rightarrow> nat" where
  "round_half_even p q =
     (if 2 * (p mod q) < q then p div q
      else if 2 * (p mod q) > q then p div q + 1
      else if even (p div q) then p div q else p div q + 1)"

definition to_double :: "nat \<Rightarrow> nat \<Rightarrow> nat \<times> int" where
  "to_double p q =
     (let e0 = int (bit_length p) - int (bit_length q) - 53;
          e = (if p * 2 ^ nat (- e0) \<ge> q * 2 ^ nat e0 * 2 ^ 53 then e0 + 1 else e0)
      in (round_half_even (p * 2 ^ nat (- e)) (q * 2 ^ nat e), e))"

fun times_100 :: "nat \<times> int \<Rightarrow> nat \<times> int" where
  "times_100 (m, e) = to_double (100 * m * 2 ^ nat e) (2 ^ nat (- e))"

fun Math_round :: "nat \<times> int \<Rightarrow> int" where
  "Math_round (m, e) = int ((2 * m * 2 ^ nat e + 2 ^ nat (- e)) div (2 * 2 ^ nat (- e)))"

definition percentage_of :: "nat \<Rightarrow> nat \<Rightarrow> number" where
  "percentage_of completedCount n =
     (if n = 0 then (if completedCount = 0 then NaN else PlusInfinity)
      else if completedCount = 0 then Num 0
      else Num (of_int (Math_round (times_100 (to_double completedCount n)))))"

text \<open>The \<open>progressCallback\<close> of \<open>processConversionInBackground\<close>.\<close>

definition progressCallback :: "jstring \<Rightarrow> progress \<Rightarrow> int \<Rightarrow> registry \<Rightarrow> registry" where
  "progressCallback cid p now reg =
     (case reg cid of
        None \<Rightarrow> reg
      | Some conv \<Rightarrow> if cancelled conv then reg
                     else reg(cid \<mapsto> conv\<lparr> progress := Some p, lastUpdate := Some now \<rparr>))"

text \<open>
  The task after \<open>await generateAudio(...)\<close>: an error is rethrown; a file produced for a
  session cancelled meanwhile is dropped with the cancellation error; otherwise the
  counter and the progress are updated and the task returns its result. The pair is the
  new \<open>completedCount\<close> and what the task gave.
\<close>

definition task_finish ::
  "jstring \<Rightarrow> nat \<Rightarrow> jstring list \<Rightarrow> nat \<Rightarrow> error + jstring \<Rightarrow> int \<Rightarrow> registry
   \<Rightarrow> registry \<times> nat \<times> sentenceResult outcome" where
  "task_finish cid i sentences completedCount generated now reg =
     (case generated of
        Inl e \<Rightarrow> (reg, completedCount, Threw e)
      | Inr file \<Rightarrow>
          if is_cancelled reg cid then (reg, completedCount, Threw (Error cancelled_message))
          else (progressCallback cid
                  \<lparr> p_completed = completedCount + 1, p_total = length sentences,
                    p_percentage = percentage_of (completedCount + 1) (length sentences),
                    p_currentSentence = Some (i + 1) \<rparr> now reg,
                completedCount + 1,
                Returned (Some \<lparr> index = i, audioFile = file, sentence = sentences ! i \<rparr>)))"

subsection \<open>generateAudioParallel after Promise.allSettled\<close>

text \<open>\<open>results.filter(result => result.status === 'fulfilled' && result.value !== null)
  .map(result => result.value)\<close>, over the settlements in the order of the promises.\<close>

fun successfulResults :: "'r settlement list \<Rightarrow> 'r list" where
  "successfulResults [] = []"
| "successfulResults (Resolved (Some v) # rs) = v # successfulResults rs"
| "successfulResults (Resolved None # rs) = successfulResults rs"
| "successfulResults (Rejected e # rs) = successfulResults rs"

text \<open>The results after \<open>successfulResults.sort((a, b) => a.index - b.index)\<close>.\<close>

definition sortedResults :: "sentenceResult settlement list \<Rightarrow> sentenceResult list" where
  "sortedResults rs = sort_key index (successfulResults rs)"

definition generateAudioParallel_collect ::
  "sentenceResult settlement list \<Rightarrow> registry \<Rightarrow> jstring \<Rightarrow> error + jstring list" where
  "generateAudioParallel_collect rs reg cid =
     (if is_cancelled reg cid then Inl (Error cancelled_message)
      else if length (successfulResults rs) = 0
      then Inl (Error (js ''No sentences were processed successfully''))
      else Inr (map audioFile (sortedResults rs)))"

subsection \<open>The audio assembler\<close>

text \<open>How an FFmpeg process ends: its \<open>close\<close> event with the exit code, whether the
  output file exists then, and its stderr; or its \<open>error\<close> event.\<close>

datatype ffmpeg_end = Closed "int option" bool jstring | SpawnError error

definition concatenateAudio :: "jstring list \<Rightarrow> jstring \<Rightarrow> ffmpeg_end \<Rightarrow> error + jstring" where
  "concatenateAudio audioFiles outputPath e = (case e of
       Closed code exists stderr \<Rightarrow>
         if code = Some 0 \<and> exists then Inr outputPath
         else Inl (Error (js ''FFmpeg concatenation failed with code '' @ show_code code
                          @ js ''. Stderr: '' @ stderr))
     | SpawnError err \<Rightarrow>
         Inl (Error (js ''Failed to start FFmpeg process: '' @ message err)))"

text \<open>\<open>convertToMp3\<close>, then \<open>fs.readFile\<close> and the base64 encoding: the second
  argument is what reading the MP3 file gives.\<close>

definition convertToMp3_read :: "ffmpeg_end \<Rightarrow> error + jstring \<Rightarrow> error + jstring" where
  "convertToMp3_read e audioBase64 = (case e of
       Closed code exists stderr \<Rightarrow>
         if code = Some 0 \<and> exists then audioBase64
         else Inl (Error (js ''FFmpeg process failed with code '' @ show_code code
                          @ js ''. Stderr: '' @ stderr))
     | SpawnError err \<Rightarrow>
         Inl (Error (js ''Failed to start FFmpeg process: '' @ message err)))"

subsection \<open>processConversionInBackground\<close>

text \<open>
  The suspended call of \<open>processConversionInBackground\<close> for a session: its arguments
  and the \<open>await\<close> it stands at. During synthesis it holds the task states in sentence
  order and the \<open>completedCount\<close> of \<open>generateAudioParallel\<close>. \<open>Concat audioFiles
  outputPath\<close> is the pending call \<open>concatenateAudio(audioFiles, concatenatedPath)\<close> with
  its two arguments, and \<open>Mp3 wavPath\<close> the pending call \<open>convertToMp3(finalAudioPath)\<close>
  with its argument.
\<close>

datatype phase =
    Synthesis "task_state list" nat
  | Concat "jstring list" jstring
  | Mp3 jstring
  | Finished

record background =
  validSentences :: "jstring list"
  sentences_length :: nat
  modelName :: jstring
  phase :: phase

record world =
  activeConversions :: registry
  backgrounds :: "jstring \<rightharpoonup> background"

text \<open>The \<open>catch\<close> block.\<close>

definition catch_block :: "jstring \<Rightarrow> error \<Rightarrow> int \<Rightarrow> registry \<Rightarrow> registry" where
  "catch_block cid e now reg =
     (case reg cid of
        None \<Rightarrow> reg
      | Some conv \<Rightarrow>
          if message e = cancelled_message
          then reg(cid \<mapsto> conv\<lparr> cancelled := True, cancelledAt := Some now \<rparr>)
          else reg(cid \<mapsto> conv\<lparr> error := Some (message e), failed := True \<rparr>))"

text \<open>\<open>!activeConversions.has(conversionId) || activeConversions.get(conversionId).cancelled\<close>\<close>

definition gone_or_cancelled :: "registry \<Rightarrow> jstring \<Rightarrow> bool" where
  "gone_or_cancelled reg cid = (case reg cid of None \<Rightarrow> True | Some c \<Rightarrow> cancelled c)"

text \<open>
  From the return of \<open>generateAudioParallel\<close> to the next \<open>await\<close>: the cancellation
  check, the empty check, and either the single file taken as it is (then the final
  check before \<open>convertToMp3\<close>) or the call of \<open>concatenateAudio\<close>. The result is the
  registry and the next phase, which holds what is handed to \<open>concatenateAudio\<close> or to
  \<open>convertToMp3\<close>.
\<close>

definition after_synthesis ::
  "jstring \<Rightarrow> error + jstring list \<Rightarrow> jstring \<Rightarrow> int \<Rightarrow> registry \<Rightarrow> registry \<times> phase" where
  "after_synthesis cid collected concatenatedPath now reg =
     (case collected of
        Inl e \<Rightarrow> (catch_block cid e now reg, Finished)
      | Inr audioFiles \<Rightarrow>
          if gone_or_cancelled reg cid then (reg, Finished)
          else if length audioFiles = 0
          then (catch_block cid (Error (js ''Failed to generate any audio'')) now reg, Finished)
          else if length audioFiles = 1
          then (if gone_or_cancelled reg cid then (reg, Finished)
                else (reg, Mp3 (audioFiles ! 0)))
          else (reg, Concat audioFiles concatenatedPath))"

text \<open>From the end of \<open>concatenateAudio\<close> to \<open>await convertToMp3\<close>.\<close>

definition after_concat :: "jstring \<Rightarrow> error + jstring \<Rightarrow> int \<Rightarrow> registry \<Rightarrow> registry \<times> phase" where
  "after_concat cid concatenated now reg =
     (case concatenated of
        Inl e \<Rightarrow> (catch_block cid e now reg, Finished)
      | Inr finalAudioPath \<Rightarrow>
          if gone_or_cancelled reg cid then (reg, Finished) else (reg, Mp3 finalAudioPath))"

text \<open>From the MP3 data to the end: the session gets its result unless it is gone or
  cancelled.\<close>

definition after_mp3 ::
  "jstring \<Rightarrow> jstring \<Rightarrow> nat \<Rightarrow> error + jstring \<Rightarrow> int \<Rightarrow> registry \<Rightarrow> registry" where
  "after_mp3 cid mname n encoded now reg =
     (case encoded of
        Inl e \<Rightarrow> catch_block cid e now reg
      | Inr audioBase64 \<Rightarrow>
          (case reg cid of
             None \<Rightarrow> reg
           | Some conv \<Rightarrow>
               if cancelled conv then reg
               else reg(cid \<mapsto> conv\<lparr> completed := True,
                      result := Some \<lparr> audio = js ''data:audio/mpeg;base64,'' @ audioBase64,
                                       model = mname, sentenceCount = n \<rparr>,
                      completedAt := Some now \<rparr>)))"

subsection \<open>The status, cancel and cleanup handlers\<close>

record snapshot =
  s_id :: jstring
  s_cancelled :: bool
  s_completed :: bool
  s_failed :: bool
  s_progress :: progress
  s_result :: "result option"
  s_error :: "jstring option"
  s_startTime :: int
  s_lastUpdate :: int

datatype status_response = NotFound | Status snapshot

text \<open>\<open>app.get('/conversion-status/:id')\<close>. In \<open>conversion.error || null\<close> the empty
  string is falsy, as \<open>0\<close> is in \<open>conversion.lastUpdate || conversion.startTime\<close>.\<close>

definition conversion_status :: "jstring \<Rightarrow> registry \<Rightarrow> status_response" where
  "conversion_status cid reg =
     (case reg cid of
        None \<Rightarrow> NotFound
      | Some conversion \<Rightarrow> Status
          \<lparr> s_id = conv_id conversion,
            s_cancelled = cancelled conversion,
            s_completed = completed conversion,
            s_failed = failed conversion,
            s_progress = (case progress conversion of
                            Some p \<Rightarrow> p
                          | None \<Rightarrow> \<lparr> p_completed = 0, p_total = totalSentences conversion,
                                       p_percentage = Num 0, p_currentSentence = None \<rparr>),
            s_result = result conversion,
            s_error = (case error conversion of
                         None \<Rightarrow> None
                       | Some m \<Rightarrow> if m = [] then None else Some m),
            s_startTime = startTime conversion,
            s_lastUpdate = (case lastUpdate conversion of
                              None \<Rightarrow> startTime conversion
                            | Some t \<Rightarrow> if t = 0 then startTime conversion else t) \<rparr>)"

datatype cancel_response = CancelNotFound | CancelRefused jstring | CancelAccepted jstring

text \<open>
  \<open>app.post('/cancel-conversion/:id')\<close>: the response, the registry, and the handles on
  which \<open>kill('SIGKILL')\<close> is called.
\<close>

definition cancel_conversion ::
  "jstring \<Rightarrow> int \<Rightarrow> registry \<Rightarrow> cancel_response \<times> registry \<times> process list" where
  "cancel_conversion cid now reg =
     (case reg cid of
        None \<Rightarrow> (CancelNotFound, reg, [])
      | Some conversion \<Rightarrow>
          if completed conversion
          then (CancelRefused (js ''Conversion already completed''), reg, [])
          else (CancelAccepted (js ''Conversion cancelled''),
                reg(cid \<mapsto> conversion\<lparr> cancelled := True, cancelledAt := Some now,
                                         processes := [] \<rparr>),
                filter (\<lambda>p. \<not> killed p) (processes conversion)))"

text \<open>The sweep of \<open>setInterval\<close>: \<open>maxAge\<close> is five minutes in milliseconds.\<close>

definition maxAge :: int where
  "maxAge = 5 * 60 * 1000"

definition cleanup :: "int \<Rightarrow> registry \<Rightarrow> registry" where
  "cleanup now reg = (\<lambda>cid.
     case reg cid of
       None \<Rightarrow> None
     | Some conversion \<Rightarrow>
         if now - startTime conversion > maxAge
            \<and> (completed conversion \<or> failed conversion \<or> cancelled conversion)
         then None else Some conversion)"

subsection \<open>The turns of the event loop\<close>

text \<open>
  Each event is one turn: the \<open>/convert\<close> handler registering a session and starting its
  background call (the id is fresh), a task admitted by the queue, the end of a task's
  process, the settling of all task promises, the end of the concatenation, the end of the
  MP3 conversion and read, a cancel request, and the cleanup sweep. An event that cannot
  happen in a state leaves it as it is.

  The first check of \<open>processConversionInBackground\<close> runs in the turn that registered
  the session and passes. When the queue admits a task is left open: \<open>TaskStart\<close> may
  come at any time and in any order, which covers every schedule of the queue and every
  moment at which a cancel request or a sweep may fall between two turns.
\<close>

datatype event =
    Convert jstring "jstring list" jstring int
  | TaskStart jstring nat process jstring
  | TaskClose jstring nat "int option" jstring int
  | TaskError jstring nat error
  | AllSettled jstring jstring int
  | ConcatDone jstring ffmpeg_end int
  | Mp3Done jstring ffmpeg_end "error + jstring" int
  | CancelRequest jstring int
  | Sweep int

definition settled :: "task_state \<Rightarrow> bool" where
  "settled t = (case t of Settled s \<Rightarrow> True | _ \<Rightarrow> False)"

definition settlement_of :: "task_state \<Rightarrow> sentenceResult settlement" where
  "settlement_of t = (case t of Settled s \<Rightarrow> s | _ \<Rightarrow> Resolved None)"

definition set_phase :: "jstring \<Rightarrow> background \<Rightarrow> phase \<Rightarrow> world \<Rightarrow> world" where
  "set_phase cid b ph w = w\<lparr> backgrounds := (backgrounds w)(cid \<mapsto> b\<lparr> phase := ph \<rparr>) \<rparr>"

fun wstep :: "event \<Rightarrow> world \<Rightarrow> world" where
  "wstep (Convert cid sentences mname now) w =
     (if backgrounds w cid \<noteq> None \<or> activeConversions w cid \<noteq> None then w
      else \<lparr> activeConversions = (activeConversions w)(cid \<mapsto>
               \<lparr> conv_id = cid, cancelled = False, processes = [], startTime = now,
                 totalSentences = length sentences, progress = None, lastUpdate = None,
                 completed = False, result = None, completedAt = None, error = None,
                 failed = False, cancelledAt = None \<rparr>),
             backgrounds = (backgrounds w)(cid \<mapsto>
               \<lparr> validSentences = filter (\<lambda>s. trim s \<noteq> []) sentences,
                 sentences_length = length sentences, modelName = mname,
                 phase = Synthesis
                   (replicate (length (filter (\<lambda>s. trim s \<noteq> []) sentences)) Queued) 0 \<rparr>) \<rparr>)"
| "wstep (TaskStart cid i piperProcess outputFile) w =
     (case backgrounds w cid of
        None \<Rightarrow> w
      | Some b \<Rightarrow>
          (case phase b of
             Synthesis tasks completedCount \<Rightarrow>
               if i < length tasks \<and> tasks ! i = Queued
               then (let (reg, t) = task_start cid piperProcess outputFile (activeConversions w)
                     in set_phase cid b (Synthesis (tasks[i := t]) completedCount)
                          (w\<lparr> activeConversions := reg \<rparr>))
               else w
           | _ \<Rightarrow> w))"
| "wstep (TaskClose cid i code stderr now) w =
     (case backgrounds w cid of
        None \<Rightarrow> w
      | Some b \<Rightarrow>
          (case phase b of
             Synthesis tasks completedCount \<Rightarrow>
               if i < length tasks
               then (case tasks ! i of
                       Spawned outputFile \<Rightarrow>
                         (let (reg, n, out) =
                                task_finish cid i (validSentences b) completedCount
                                  (generateAudio_close code stderr outputFile
                                     (activeConversions w) cid)
                                  now (activeConversions w)
                          in set_phase cid b (Synthesis (tasks[i := Settled (settle out)]) n)
                               (w\<lparr> activeConversions := reg \<rparr>))
                     | _ \<Rightarrow> w)
               else w
           | _ \<Rightarrow> w))"
| "wstep (TaskError cid i err) w =
     (case backgrounds w cid of
        None \<Rightarrow> w
      | Some b \<Rightarrow>
          (case phase b of
             Synthesis tasks completedCount \<Rightarrow>
               if i < length tasks
               then (case tasks ! i of
                       Spawned outputFile \<Rightarrow>
                         set_phase cid b
                           (Synthesis (tasks[i := Settled (settle (Threw err))]) completedCount) w
                     | _ \<Rightarrow> w)
               else w
           | _ \<Rightarrow> w))"
| "wstep (AllSettled cid concatenatedPath now) w =
     (case backgrounds w cid of
        None \<Rightarrow> w
      | Some b \<Rightarrow>
          (case phase b of
             Synthesis tasks completedCount \<Rightarrow>
               if list_all settled tasks
               then (let (reg, ph) =
                           after_synthesis cid
                             (generateAudioParallel_collect (map settlement_of tasks)
                                (activeConversions w) cid)
                             concatenatedPath now (activeConversions w)
                     in set_phase cid b ph (w\<lparr> activeConversions := reg \<rparr>))
               else w
           | _ \<Rightarrow> w))"
| "wstep (ConcatDone cid e now) w =
     (case backgrounds w cid of
        None \<Rightarrow> w
      | Some b \<Rightarrow>
          (case phase b of
             Concat audioFiles concatenatedPath \<Rightarrow>
               (let (reg, ph) = after_concat cid
                                  (concatenateAudio audioFiles concatenatedPath e) now
                                  (activeConversions w)
                in set_phase cid b ph (w\<lparr> activeConversions := reg \<rparr>))
           | _ \<Rightarrow> w))"
| "wstep (Mp3Done cid e audioBase64 now) w =
     (case backgrounds w cid of
        None \<Rightarrow> w
      | Some b \<Rightarrow>
          (case phase b of
             Mp3 finalAudioPath \<Rightarrow>
               set_phase cid b Finished
                 (w\<lparr> activeConversions :=
                      after_mp3 cid (modelName b) (sentences_length b)
                        (convertToMp3_read e audioBase64) now (activeConversions w) \<rparr>)
           | _ \<Rightarrow> w))"
| "wstep (CancelRequest cid now) w =
     w\<lparr> activeConversions := fst (snd (cancel_conversion cid now (activeConversions w))) \<rparr>"
| "wstep (Sweep now) w = w\<lparr> activeConversions := cleanup now (activeConversions w) \<rparr>"

fun wrun :: "event list \<Rightarrow> world \<Rightarrow> world" where
  "wrun [] w = w"
| "wrun (e # es) w = wrun es (wstep e w)"

definition world0 :: world where
  "world0 = \<lparr> activeConversions = Map.empty, backgrounds = Map.empty \<rparr>"

subsection \<open>Invariants of the sessions\<close>

definition conv_ok :: "conversion \<Rightarrow> bool" where
  "conv_ok c = ((completed c \<longleftrightarrow> result c \<noteq> None) \<and> (failed c \<longleftrightarrow> error c \<noteq> None)
     \<and> \<not> (completed c \<and> failed c) \<and> (completed c \<longrightarrow> \<not> cancelled c))"

definition finished :: "world \<Rightarrow> jstring \<Rightarrow> bool" where
  "finished w cid = (\<exists>b. backgrounds w cid = Some b \<and> phase b = Finished)"

definition sess_inv :: "world \<Rightarrow> jstring \<Rightarrow> bool" where
  "sess_inv w cid = (\<forall>c. activeConversions w cid = Some c \<longrightarrow>
      conv_ok c \<and> (completed c \<or> failed c \<longrightarrow> finished w cid))"

definition benign :: "conversion \<Rightarrow> conversion \<Rightarrow> bool" where
  "benign c c' = (completed c' = completed c \<and> result c' = result c \<and> failed c' = failed c
     \<and> error c' = error c \<and> (completed c \<longrightarrow> cancelled c' = cancelled c))"

definition bg_update :: "jstring \<Rightarrow> int \<Rightarrow> conversion \<Rightarrow> conversion \<Rightarrow> bool" where
  "bg_update cid now c c' =
     (c' = c\<lparr> cancelled := True, cancelledAt := Some now \<rparr>
      \<or> (\<exists>m. c' = c\<lparr> error := Some m, failed := True \<rparr>)
      \<or> (\<not> cancelled c \<and> (\<exists>r. c' = c\<lparr> completed := True, result := Some r, completedAt := Some now \<rparr>)))"

subsection \<open>Tasks carry their own index\<close>

definition tasks_inv :: "world \<Rightarrow> jstring \<Rightarrow> bool" where
  "tasks_inv w cid = (\<forall>b tasks n. backgrounds w cid = Some b \<and> phase b = Synthesis tasks n \<longrightarrow>
     (\<forall>i<length tasks. \<forall>r. tasks ! i = Settled (Resolved (Some r)) \<longrightarrow> index r = i))"

section \<open>Example runs\<close>

text \<open>A queue item with a given id.\<close>

definition item :: "string \<Rightarrow> unit queueItem" where
  "item s = \<lparr> task = (), item_id = js s \<rparr>"

text \<open>On a machine with one core the ceiling starts at two; two tasks are admitted and
  the ceiling is then set to one.\<close>

definition lowered_run :: "(unit, unit) qevent list" where
  "lowered_run = [Add (item ''a''), Add (item ''b''), SetMax (Num 1)]"

text \<open>The ceiling is set to 2.5, as the settings route does for \<open>maxThreads: 2.5\<close>, and
  three tasks are added.\<close>

definition fractional_run :: "(unit, unit) qevent list" where
  "fractional_run = [SetMax (Num (5 / 2)), Add (item ''a''), Add (item ''b''),
                     Add (item ''c'')]"

text \<open>Three tasks with the ceiling at two, one completion, the ceiling raised to 2.5 and
  a fourth task.\<close>

definition three_adds :: "(unit, unit) qevent list" where
  "three_adds = [Add (item ''a''), Add (item ''b''), Add (item ''c'')]"

definition steady_run :: "(unit, unit) qevent list" where
  "steady_run = three_adds @ [Complete (item ''a'') (Returned None), Tick,
                              SetMax (Num (5 / 2)), Add (item ''d'')]"

text \<open>The ceiling is set to \<open>NaN\<close> while nothing runs, and a task is added.\<close>

definition nan_run :: "(unit, unit) qevent list" where
  "nan_run = [SetMax NaN, Add (item ''a'')]"

text \<open>After \<open>lowered_run\<close> the first task completes, a third is added, the second
  completes and the scheduled \<open>processQueue\<close> runs.\<close>

definition draining_run :: "(unit, unit) qevent list" where
  "draining_run = [Complete (item ''a'') (Returned None), Tick, Add (item ''c''),
                   Complete (item ''b'') (Returned None), Tick]"

definition waiting_queue :: "unit ProcessQueue" where
  "waiting_queue = \<lparr> maxConcurrent = Num 1, running = [js ''a''],
                      queue = [item ''b'', item ''c''] \<rparr>"

definition two_running :: "unit ProcessQueue" where
  "two_running = \<lparr> maxConcurrent = Num 2, running = [js ''a'', js ''b''],
                    queue = [item ''c''] \<rparr>"

text \<open>Sessions: an id, two process handles.\<close>

definition s1 :: jstring where
  "s1 = js ''s1''"

definition p1 :: process where
  "p1 = \<lparr> pid = 1, killed = False \<rparr>"

definition p2 :: process where
  "p2 = \<lparr> pid = 2, killed = False \<rparr>"

text \<open>Two sentences: the process of the first exits with code 1 while the session is not
  cancelled, the second succeeds.\<close>

definition one_fails :: "event list" where
  "one_fails =
     [Convert s1 [js ''Hola.'', js ''Adios.''] (js ''m'') 0,
      TaskStart s1 0 p1 (js ''a.wav''),
      TaskStart s1 1 p2 (js ''b.wav''),
      TaskClose s1 0 (Some 1) [] 10,
      TaskClose s1 1 (Some 0) [] 20]"

definition then_assembled :: "event list" where
  "then_assembled =
     [AllSettled s1 (js ''f.wav'') 30,
      Mp3Done s1 (Closed (Some 0) True []) (Inr (js ''QUJD'')) 40]"

text \<open>Two sentences, the second finishing before the first.\<close>

definition out_of_order :: "event list" where
  "out_of_order =
     [Convert s1 [js ''Hola.'', js ''Adios.''] (js ''m'') 0,
      TaskStart s1 0 p1 (js ''a.wav''),
      TaskStart s1 1 p2 (js ''b.wav''),
      TaskClose s1 1 (Some 0) [] 10,
      TaskClose s1 0 (Some 0) [] 20]"

text \<open>Two sentences whose processes have both been spawned.\<close>

definition both_started :: "event list" where
  "both_started =
     [Convert s1 [js ''Hola.'', js ''Adios.''] (js ''m'') 0,
      TaskStart s1 0 p1 (js ''a.wav''),
      TaskStart s1 1 p2 (js ''b.wav'')]"

text \<open>Three sentences: the third task ends first, the process of the second exits with
  code 1, the first ends last.\<close>

definition p3 :: process where
  "p3 = \<lparr> pid = 3, killed = False \<rparr>"

definition middle_fails :: "event list" where
  "middle_fails =
     [Convert s1 [js ''Hola.'', js ''Bien.'', js ''Adios.''] (js ''m'') 0,
      TaskStart s1 0 p1 (js ''a.wav''),
      TaskStart s1 1 p2 (js ''b.wav''),
      TaskStart s1 2 p3 (js ''c.wav''),
      TaskClose s1 2 (Some 0) [] 10,
      TaskClose s1 1 (Some 1) [] 15,
      TaskClose s1 0 (Some 0) [] 20]"

text \<open>One sentence whose process has failed, before the promises are collected.\<close>

definition one_failed :: "event list" where
  "one_failed =
     [Convert s1 [js ''Hola.''] (js ''m'') 0,
      TaskStart s1 0 p1 (js ''a.wav''),
      TaskClose s1 0 (Some 1) [] 10]"

text \<open>One sentence whose process fails: the session fails.\<close>

definition all_fail :: "event list" where
  "all_fail =
     [Convert s1 [js ''Hola.''] (js ''m'') 0,
      TaskStart s1 0 p1 (js ''a.wav''),
      TaskClose s1 0 (Some 1) [] 10,
      AllSettled s1 (js ''f.wav'') 30]"

text \<open>One sentence, cancelled while its process runs; the killed process closes with
  code \<open>null\<close>.\<close>

definition cancelled_run :: "event list" where
  "cancelled_run =
     [Convert s1 [js ''Hola.''] (js ''m'') 0,
      TaskStart s1 0 p1 (js ''a.wav''),
      CancelRequest s1 5,
      TaskClose s1 0 None [] 10,
      AllSettled s1 (js ''f.wav'') 30]"

text \<open>One sentence, synthesised and converted.\<close>

definition completed_run :: "event list" where
  "completed_run =
     [Convert s1 [js ''Hola.''] (js ''m'') 0,
      TaskStart s1 0 p1 (js ''a.wav''),
      TaskClose s1 0 (Some 0) [] 10,
      AllSettled s1 (js ''f.wav'') 30,
      Mp3Done s1 (Closed (Some 0) True []) (Inr (js ''QUJD'')) 40]"

text \<open>One sentence, still being synthesised.\<close>

definition running_run :: "event list" where
  "running_run =
     [Convert s1 [js ''Hola.''] (js ''m'') 0,
      TaskStart s1 0 p1 (js ''a.wav'')]"

text \<open>The text of the segmentation example, and the strings on its way.\<close>

definition hola_input :: jstring where
  "hola_input = js ''Hola Dr. G'' @ [243] @ js ''mez. '' @ [191] @ js ''C'' @ [243]
     @ js ''mo est'' @ [225] @ js ''s''"

definition hola_protected :: jstring where
  "hola_protected = js ''Hola __ABBREV_0__. G'' @ [243] @ js ''mez. '' @ [191] @ js ''C''
     @ [243] @ js ''mo est'' @ [225] @ js ''s''"

definition hola_map :: "(jstring \<times> jstring) list" where
  "hola_map = [(js ''__ABBREV_0__'', js ''Dr'')]"

definition hola_placeholder :: jstring where
  "hola_placeholder = js ''Hola __ABBREV_0__.''"

definition hola_dr :: jstring where
  "hola_dr = js ''Hola Dr.''"

definition gomez :: jstring where
  "gomez = js ''G'' @ [243] @ js ''mez.''"

definition como_estas :: jstring where
  "como_estas = [191] @ js ''C'' @ [243] @ js ''mo est'' @ [225] @ js ''s''"

definition como_estas_q :: jstring where
  "como_estas_q = [191] @ js ''C'' @ [243] @ js ''mo est'' @ [225] @ js ''s?''"

definition hola_dr_gomez :: jstring where
  "hola_dr_gomez = js ''Hola Dr. G'' @ [243] @ js ''mez.''"

text \<open>A sentence ending in the ellipsis character.\<close>

definition ya_ellipsis :: jstring where
  "ya_ellipsis = js ''Ya'' @ [8230]"

section \<open>Properties of the queue\<close>

lemma length_set_add: "length (set_add x xs) \<le> Suc (length xs)"
  by (simp add: set_add_def)

lemma set_set_add: "set (set_add x xs) = insert x (set xs)"
  by (auto simp: set_add_def)

lemma length_set_delete: "length (set_delete x xs) \<le> length xs"
  by (simp add: set_delete_def)

lemma length_set_delete_member:
  "x \<in> set xs \<Longrightarrow> length (set_delete x xs) < length xs"
  by (induction xs) (auto simp: set_delete_def less_Suc_eq_le)

lemma number_lt_mono: "number_lt (Num a) c \<Longrightarrow> b \<le> a \<Longrightarrow> number_lt (Num b) c"
  by (cases c) simp_all

lemma clamp_Num: "clamp x = Num c \<Longrightarrow> 1 \<le> c \<and> c \<le> 32"
  by (cases x) (auto simp: clamp_def)

lemma clamp_cases: "clamp x = NaN \<or> (\<exists>c. clamp x = Num c)"
  by (cases x) (simp_all add: clamp_def)

lemma clamp_of_int: "clamp (Num (of_int n)) = Num (of_int (max 1 (min 32 n)))"
  by (simp add: clamp_def max_def min_def)

lemma processQueue_stop:
  "\<not> (queue q \<noteq> [] \<and> number_lt (set_size (running q)) (maxConcurrent q)) \<Longrightarrow>
   processQueue q = (q, [])"
  by (subst processQueue.simps) auto

lemma processQueue_go:
  "queue q \<noteq> [] \<Longrightarrow> number_lt (set_size (running q)) (maxConcurrent q) \<Longrightarrow>
   processQueue q =
     (fst (processQueue (q\<lparr> queue := tl (queue q),
                                running := set_add (item_id (hd (queue q))) (running q) \<rparr>)),
      hd (queue q) #
      snd (processQueue (q\<lparr> queue := tl (queue q),
                                running := set_add (item_id (hd (queue q))) (running q) \<rparr>)))"
  by (subst processQueue.simps) (simp add: Let_def split: prod.splits)

lemma processQueue_maxConcurrent:
  "maxConcurrent (fst (processQueue q)) = maxConcurrent q"
proof (induction q rule: processQueue.induct)
  case (1 q)
  show ?case
  proof (cases "queue q \<noteq> [] \<and> number_lt (set_size (running q)) (maxConcurrent q)")
    case True
    define q' where "q' = q\<lparr> queue := tl (queue q),
        running := set_add (item_id (hd (queue q))) (running q) \<rparr>"
    have "maxConcurrent (fst (processQueue q')) = maxConcurrent q'"
      using "1.IH" [OF True refl, of q'] by (simp add: q'_def)
    moreover have "fst (processQueue q) = fst (processQueue q')"
      using True by (simp add: processQueue_go q'_def)
    ultimately show ?thesis by (simp add: q'_def)
  next
    case False
    then show ?thesis by (simp add: processQueue_stop)
  qed
qed

lemma within_ceiling_shrink:
  "within_ceiling q \<Longrightarrow> length (running q') \<le> length (running q) \<Longrightarrow>
   maxConcurrent q' = maxConcurrent q \<Longrightarrow> within_ceiling q'"
proof -
  assume w: "within_ceiling q" and l: "length (running q') \<le> length (running q)"
    and m: "maxConcurrent q' = maxConcurrent q"
  show "within_ceiling q'"
  proof (cases "running q' = []")
    case True
    then show ?thesis by (simp add: within_ceiling_def)
  next
    case False
    with l have "running q \<noteq> []" by auto
    with w have "number_lt (Num (real (length (running q) - 1))) (maxConcurrent q)"
      by (simp add: within_ceiling_def)
    moreover have "real (length (running q') - 1) \<le> real (length (running q) - 1)"
      using l by simp
    ultimately have "number_lt (Num (real (length (running q') - 1))) (maxConcurrent q')"
      unfolding m by (rule number_lt_mono)
    then show ?thesis by (simp add: within_ceiling_def)
  qed
qed

text \<open>Whatever the state, \<open>processQueue\<close> either starts nothing or ends within the
  ceiling.\<close>

lemma processQueue_bound:
  "running (fst (processQueue q)) = running q \<or> within_ceiling (fst (processQueue q))"
proof (induction q rule: processQueue.induct)
  case (1 q)
  show ?case
  proof (cases "queue q \<noteq> [] \<and> number_lt (set_size (running q)) (maxConcurrent q)")
    case True
    define q' where "q' = q\<lparr> queue := tl (queue q),
        running := set_add (item_id (hd (queue q))) (running q) \<rparr>"
    have ih: "running (fst (processQueue q')) = running q' \<or> within_ceiling (fst (processQueue q'))"
      using "1.IH" [OF True refl, of q'] by (simp add: q'_def)
    have "length (running q') - 1 \<le> length (running q)"
      using length_set_add [of "item_id (hd (queue q))" "running q"] by (simp add: q'_def)
    then have le: "real (length (running q') - 1) \<le> real (length (running q))" by simp
    from True have "number_lt (Num (real (length (running q)))) (maxConcurrent q)"
      by (simp add: set_size_def)
    from this le have "number_lt (Num (real (length (running q') - 1))) (maxConcurrent q)"
      by (rule number_lt_mono)
    then have w: "within_ceiling q'" by (simp add: within_ceiling_def q'_def)
    from ih have "within_ceiling (fst (processQueue q'))"
    proof
      assume e: "running (fst (processQueue q')) = running q'"
      show ?thesis
        by (rule within_ceiling_shrink [OF w]) (simp_all add: e processQueue_maxConcurrent)
    next
      assume "within_ceiling (fst (processQueue q'))"
      then show ?thesis .
    qed
    moreover have "fst (processQueue q) = fst (processQueue q')"
      using True by (simp add: processQueue_go q'_def)
    ultimately show ?thesis by simp
  next
    case False
    then show ?thesis by (simp add: processQueue_stop)
  qed
qed

lemma processQueue_within:
  "within_ceiling q \<Longrightarrow> within_ceiling (fst (processQueue q))"
proof -
  assume w: "within_ceiling q"
  from processQueue_bound [of q] show ?thesis
  proof
    assume e: "running (fst (processQueue q)) = running q"
    show ?thesis
      by (rule within_ceiling_shrink [OF w]) (simp_all add: e processQueue_maxConcurrent)
  next
    assume "within_ceiling (fst (processQueue q))"
    then show ?thesis .
  qed
qed

lemma qstep_bound:
  "length (running (qstep e q)) \<le> length (running q) \<or> within_ceiling (qstep e q)"
proof (cases e)
  case (Add it)
  from processQueue_bound [of "q\<lparr> queue := queue q @ [it] \<rparr>"] Add show ?thesis
    by (auto simp: add_def)
next
  case (Complete it out)
  then show ?thesis by (simp add: executeTask_def length_set_delete)
next
  case Tick
  from processQueue_bound [of q] Tick show ?thesis by auto
next
  case (SetMax x)
  from processQueue_bound [of "q\<lparr> maxConcurrent := clamp x \<rparr>"] SetMax show ?thesis
    by (auto simp: setMaxConcurrent_def)
qed

lemma qstep_within:
  assumes "within_ceiling q"
    and "case e of SetMax x \<Rightarrow> within_ceiling (q\<lparr> maxConcurrent := clamp x \<rparr>) | _ \<Rightarrow> True"
  shows "within_ceiling (qstep e q)"
proof (cases e)
  case (Add it)
  have "within_ceiling (q\<lparr> queue := queue q @ [it] \<rparr>)"
    using assms(1) by (simp add: within_ceiling_def)
  then show ?thesis unfolding Add qstep.simps add_def by (rule processQueue_within)
next
  case (Complete it out)
  show ?thesis unfolding Complete qstep.simps
    by (rule within_ceiling_shrink [OF assms(1)]) (simp_all add: executeTask_def length_set_delete)
next
  case Tick
  show ?thesis unfolding Tick qstep.simps using assms(1) by (rule processQueue_within)
next
  case (SetMax x)
  from assms(2) have "within_ceiling (q\<lparr> maxConcurrent := clamp x \<rparr>)" by (simp add: SetMax)
  then show ?thesis unfolding SetMax qstep.simps setMaxConcurrent_def
    by (rule processQueue_within)
qed

lemma qrun_within:
  "within_ceiling q \<Longrightarrow> never_below_running evs q \<Longrightarrow> within_ceiling (qrun evs q)"
proof (induction evs arbitrary: q)
  case Nil
  then show ?case by simp
next
  case (Cons e es)
  from Cons.prems have "within_ceiling (qstep e q)"
    by (intro qstep_within) simp_all
  with Cons.prems Cons.IH [of "qstep e q"] show ?case by simp
qed

text \<open>The ceiling is never negative: it starts at twice the number of cores and every
  later value is clamped.\<close>

lemma qstep_maxConcurrent:
  "maxConcurrent (qstep e q) = maxConcurrent q
   \<or> (\<exists>x. maxConcurrent (qstep e q) = clamp x)"
  by (cases e)
    (auto simp: add_def executeTask_def setMaxConcurrent_def processQueue_maxConcurrent)

lemma qrun_maxConcurrent:
  "maxConcurrent (qrun evs q) = maxConcurrent q \<or> (\<exists>x. maxConcurrent (qrun evs q) = clamp x)"
proof (induction evs arbitrary: q)
  case Nil
  then show ?case by simp
next
  case (Cons e es)
  from Cons.IH [of "qstep e q"] qstep_maxConcurrent [of e q] show ?case by auto
qed

lemma within_ceiling_bound:
  assumes "within_ceiling q" and "maxConcurrent q = Num c" and "0 \<le> c"
  shows "real (length (running q)) < c + 1
         \<and> (c \<in> \<int> \<longrightarrow> real (length (running q)) \<le> c)"
proof -
  have a: "real (length (running q)) < c + 1"
  proof (cases "running q = []")
    case True
    with assms(3) show ?thesis by simp
  next
    case False
    with assms(1,2) have "real (length (running q) - 1) < c" by (simp add: within_ceiling_def)
    moreover from False have "real (length (running q) - 1) = real (length (running q)) - 1"
      by (cases "running q") simp_all
    ultimately show ?thesis by simp
  qed
  have "real (length (running q)) \<le> c" if "c \<in> \<int>"
  proof -
    from that obtain k where k: "c = of_int k" by (auto elim: Ints_cases)
    from a have "of_int (int (length (running q))) < (of_int (k + 1) :: real)"
      unfolding k by simp
    then have "int (length (running q)) < k + 1" by (simp only: of_int_less_iff)
    then have "int (length (running q)) \<le> k" by simp
    then have "(of_int (int (length (running q))) :: real) \<le> of_int k"
      by (simp only: of_int_le_iff)
    then show ?thesis unfolding k by simp
  qed
  with a show ?thesis by blast
qed

lemma processQueue_result:
  "processQueue q = (q', started) \<Longrightarrow>
   queue q = started @ queue q'
   \<and> (queue q' = [] \<or> \<not> number_lt (set_size (running q')) (maxConcurrent q'))
   \<and> set (running q') = set (running q) \<union> item_id ` set started
   \<and> maxConcurrent q' = maxConcurrent q"
proof (induction q arbitrary: q' started rule: processQueue.induct)
  case (1 q)
  show ?case
  proof (cases "queue q \<noteq> [] \<and> number_lt (set_size (running q)) (maxConcurrent q)")
    case True
    define q1 where "q1 = q\<lparr> queue := tl (queue q),
        running := set_add (item_id (hd (queue q))) (running q) \<rparr>"
    obtain q2 st where p: "processQueue q1 = (q2, st)" by (cases "processQueue q1")
    have ih: "queue q1 = st @ queue q2
       \<and> (queue q2 = [] \<or> \<not> number_lt (set_size (running q2)) (maxConcurrent q2))
       \<and> set (running q2) = set (running q1) \<union> item_id ` set st
       \<and> maxConcurrent q2 = maxConcurrent q1"
      using "1.IH" [OF True refl, of q1 q2 st] p unfolding q1_def by fastforce
    have "processQueue q = (q2, hd (queue q) # st)"
      using True p by (simp add: processQueue_go q1_def)
    with "1.prems" have e: "q' = q2" "started = hd (queue q) # st" by simp_all
    from True have hd: "queue q = hd (queue q) # tl (queue q)" by simp
    have a: "queue q = started @ queue q'" using ih e hd by (auto simp add: q1_def)
    have b: "queue q' = [] \<or> \<not> number_lt (set_size (running q')) (maxConcurrent q')"
      using ih e by auto
    have c: "set (running q') = set (running q) \<union> item_id ` set started"
      using ih e by (auto simp: q1_def set_set_add)
    have d: "maxConcurrent q' = maxConcurrent q" using ih e by (auto simp add: q1_def)
    from a b c d show ?thesis by blast
  next
    case False
    with "1.prems" show ?thesis by (auto simp add: processQueue_stop)
  qed
qed

lemma qrun_append: "qrun (xs @ ys) q = qrun ys (qrun xs q)"
  by (induction xs arbitrary: q) simp_all

lemma never_below_running_append:
  "never_below_running (xs @ ys) q \<Longrightarrow> never_below_running xs q"
  by (induction xs arbitrary: q) simp_all

lemmas queue_defs = ProcessQueue_new_def add_def setMaxConcurrent_def executeTask_def
  processQueue.simps set_add_def set_delete_def set_size_def clamp_def within_ceiling_def
  item_def js_def

lemma lowered_run_result:
  "qrun lowered_run (ProcessQueue_new 1 None) =
     \<lparr> maxConcurrent = Num 1, running = [js ''a'', js ''b''], queue = [] \<rparr>"
  by (simp add: lowered_run_def queue_defs)

lemma fractional_run_result:
  "qrun fractional_run (ProcessQueue_new 1 None) =
     \<lparr> maxConcurrent = Num (5 / 2), running = [js ''a'', js ''b'', js ''c''], queue = [] \<rparr>"
  by (simp add: fractional_run_def queue_defs)

lemma steady_run_result:
  "qrun steady_run (ProcessQueue_new 1 None) =
     \<lparr> maxConcurrent = Num (5 / 2), running = [js ''b'', js ''c'', js ''d''], queue = [] \<rparr>"
  by (simp add: steady_run_def three_adds_def queue_defs)

lemma steady_run_never_below:
  "never_below_running steady_run (ProcessQueue_new 1 None)"
  by (simp add: steady_run_def three_adds_def queue_defs)

lemma draining_run_result:
  "qrun draining_run \<lparr> maxConcurrent = Num 1, running = [js ''a'', js ''b''], queue = [] \<rparr> =
     \<lparr> maxConcurrent = Num 1, running = [js ''c''], queue = [] \<rparr>"
  by (simp add: draining_run_def queue_defs)

lemma waiting_queue_raised:
  "setMaxConcurrent (Num 2) waiting_queue =
     (\<lparr> maxConcurrent = Num 2, running = [js ''a'', js ''b''], queue = [item ''c''] \<rparr>,
      [item ''b''])"
  by (simp add: waiting_queue_def queue_defs)

lemma nan_run_result:
  "qrun nan_run (ProcessQueue_new 1 None) =
     \<lparr> maxConcurrent = NaN, running = [], queue = [item ''a''] \<rparr>"
  by (simp add: nan_run_def queue_defs)

lemma nan_run_never_below:
  "never_below_running nan_run (ProcessQueue_new 1 None)"
  by (simp add: nan_run_def queue_defs)

lemma three_adds_result:
  "qrun three_adds (ProcessQueue_new 1 None) =
     \<lparr> maxConcurrent = Num 2, running = [js ''a'', js ''b''], queue = [item ''c''] \<rparr>"
  by (simp add: three_adds_def queue_defs)

text \<open>A ceiling that is not a whole number is exceeded without any lowering call: under
  2.5 the guard \<^verbatim>\<open>2 < 2.5\<close> admits a third task.\<close>

lemma fractional_run_exceeds:
  "\<not> number_le (set_size (running (qrun fractional_run (ProcessQueue_new 1 None))))
        (maxConcurrent (qrun fractional_run (ProcessQueue_new 1 None)))"
  by (simp add: fractional_run_result set_size_def)

text \<open>
  C2, as stated: at every reachable state of the queue the number of running tasks is at
  most \<open>maxConcurrent\<close>, also across calls of \<open>setMaxConcurrent\<close> that lower the ceiling.
  This fails: with two tasks running under a ceiling of two, \<open>setMaxConcurrent(1)\<close> leaves
  both running under a ceiling of one.
\<close>

theorem running_exceeds_lowered_ceiling:
  "\<not> number_le (set_size (running (qrun lowered_run (ProcessQueue_new 1 None))))
        (maxConcurrent (qrun lowered_run (ProcessQueue_new 1 None)))"
  by (simp add: lowered_run_result set_size_def)

text \<open>
  C2, amended. Starting from a new queue (made with the default ceiling or with a
  positive one), in every run in which no \<open>setMaxConcurrent\<close> call puts the ceiling
  below the number of tasks then running, at every state of the run (every prefix) the
  number of running tasks is less than \<open>maxConcurrent + 1\<close>, so at most
  \<open>maxConcurrent\<close> when that is a whole number, however many tasks are added;
  under a ceiling of \<open>NaN\<close> nothing runs. From any state that is within its ceiling,
  such a run stays within it. In any state at all, a turn of the queue either does not
  raise the number of running tasks or ends within the ceiling. A call of
  \<open>setMaxConcurrent\<close> keeps every running task running; when it puts the ceiling below
  the running tasks it changes nothing but the ceiling and starts nothing; and the
  completion of a running task lowers the count, until the queue is within its ceiling
  again.
\<close>

theorem running_within_ceiling:
  "(0 \<le> CPU_CORES \<and> (mc = None \<or> mc = Some (Num k) \<and> 0 < k)
      \<and> never_below_running (evs @ rest) (ProcessQueue_new CPU_CORES mc)
      \<longrightarrow> (maxConcurrent (qrun evs (ProcessQueue_new CPU_CORES mc)) = Num c
             \<longrightarrow> real (length (running (qrun evs (ProcessQueue_new CPU_CORES mc)))) < c + 1
                 \<and> (c \<in> \<int> \<longrightarrow>
                      real (length (running (qrun evs (ProcessQueue_new CPU_CORES mc)))) \<le> c))
          \<and> (maxConcurrent (qrun evs (ProcessQueue_new CPU_CORES mc)) = NaN
             \<longrightarrow> running (qrun evs (ProcessQueue_new CPU_CORES mc)) = []))
   \<and> (within_ceiling q \<and> never_below_running (evs' @ rest') q
        \<longrightarrow> within_ceiling (qrun evs' q))
   \<and> (length (running (qstep e q)) \<le> length (running q) \<or> within_ceiling (qstep e q))
   \<and> set (running q) \<subseteq> set (running (fst (setMaxConcurrent x q)))
   \<and> (\<not> within_ceiling (q\<lparr> maxConcurrent := clamp x \<rparr>)
        \<longrightarrow> setMaxConcurrent x q = (q\<lparr> maxConcurrent := clamp x \<rparr>, []))
   \<and> (item_id it \<in> set (running q)
        \<longrightarrow> length (running (fst (executeTask it out q))) < length (running q))"
proof -
  let ?new = "ProcessQueue_new CPU_CORES mc :: 'a ProcessQueue"
  have a: "(maxConcurrent (qrun evs ?new) = Num c
             \<longrightarrow> real (length (running (qrun evs ?new))) < c + 1
                 \<and> (c \<in> \<int> \<longrightarrow> real (length (running (qrun evs ?new))) \<le> c))
          \<and> (maxConcurrent (qrun evs ?new) = NaN \<longrightarrow> running (qrun evs ?new) = [])"
    if h: "0 \<le> CPU_CORES \<and> (mc = None \<or> mc = Some (Num k) \<and> 0 < k)
      \<and> never_below_running (evs @ rest) ?new"
  proof -
    have "within_ceiling ?new" by (simp add: within_ceiling_def ProcessQueue_new_def)
    moreover from h have "never_below_running evs ?new"
      by (blast intro: never_below_running_append)
    ultimately have w: "within_ceiling (qrun evs ?new)" by (rule qrun_within)
    from h have n: "maxConcurrent ?new = Num (min 32 (of_int (CPU_CORES * 2)))
        \<or> maxConcurrent ?new = Num k \<and> 0 < k"
      by (auto simp: ProcessQueue_new_def falsy_def)
    have p: "0 \<le> c" if m: "maxConcurrent (qrun evs ?new) = Num c"
    proof -
      from qrun_maxConcurrent [of evs ?new]
      show ?thesis
      proof
        assume "maxConcurrent (qrun evs ?new) = maxConcurrent ?new"
        with m n have "c = min 32 (of_int (CPU_CORES * 2)) \<or> c = k \<and> 0 < k" by auto
        with h show ?thesis by auto
      next
        assume "\<exists>x. maxConcurrent (qrun evs ?new) = clamp x"
        then obtain x where "clamp x = Num c" using m by auto
        from clamp_Num [OF this] show ?thesis by simp
      qed
    qed
    have "real (length (running (qrun evs ?new))) < c + 1
          \<and> (c \<in> \<int> \<longrightarrow> real (length (running (qrun evs ?new))) \<le> c)"
      if m: "maxConcurrent (qrun evs ?new) = Num c"
      using w m p [OF m] by (rule within_ceiling_bound)
    moreover have "running (qrun evs ?new) = []" if "maxConcurrent (qrun evs ?new) = NaN"
      using w that by (simp add: within_ceiling_def)
    ultimately show ?thesis by blast
  qed
  have b: "within_ceiling (qrun evs' q)"
    if "within_ceiling q \<and> never_below_running (evs' @ rest') q"
  proof (rule qrun_within)
    from that show "within_ceiling q" by simp
    from that show "never_below_running evs' q" by (blast intro: never_below_running_append)
  qed
  have c: "length (running (qstep e q)) \<le> length (running q) \<or> within_ceiling (qstep e q)"
    by (rule qstep_bound)
  obtain q' started where pq: "processQueue (q\<lparr> maxConcurrent := clamp x \<rparr>) = (q', started)"
    by (cases "processQueue (q\<lparr> maxConcurrent := clamp x \<rparr>)")
  from processQueue_result [OF pq]
  have "set (running q') = set (running q) \<union> item_id ` set started" by simp
  then have d: "set (running q) \<subseteq> set (running (fst (setMaxConcurrent x q)))"
    by (auto simp: setMaxConcurrent_def pq)
  have e: "setMaxConcurrent x q = (q\<lparr> maxConcurrent := clamp x \<rparr>, [])"
    if nw: "\<not> within_ceiling (q\<lparr> maxConcurrent := clamp x \<rparr>)"
  proof -
    from nw have ne: "running q \<noteq> []"
      and nl: "\<not> number_lt (Num (real (length (running q) - 1))) (clamp x)"
      by (simp_all add: within_ceiling_def)
    have "\<not> number_lt (Num (real (length (running q)))) (clamp x)"
    proof
      assume "number_lt (Num (real (length (running q)))) (clamp x)"
      moreover have "real (length (running q) - 1) \<le> real (length (running q))" by simp
      ultimately have "number_lt (Num (real (length (running q) - 1))) (clamp x)"
        by (rule number_lt_mono)
      with nl show False by simp
    qed
    then show ?thesis
      unfolding setMaxConcurrent_def by (intro processQueue_stop) (simp add: set_size_def)
  qed
  have f: "length (running (fst (executeTask it out q))) < length (running q)"
    if "item_id it \<in> set (running q)"
    using that by (simp add: executeTask_def length_set_delete_member)
  from a b c d e f show ?thesis by blast
qed

theorem running_within_ceiling_witness:
  "(0::int) \<le> 1
   \<and> never_below_running (steady_run @ []) (ProcessQueue_new 1 None)
   \<and> maxConcurrent (qrun steady_run (ProcessQueue_new 1 None)) = Num (5 / 2)
   \<and> length (running (qrun steady_run (ProcessQueue_new 1 None))) = 3
   \<and> real (length (running (qrun steady_run (ProcessQueue_new 1 None)))) < 5 / 2 + 1
   \<and> never_below_running (three_adds @ []) (ProcessQueue_new 1 None)
   \<and> maxConcurrent (qrun three_adds (ProcessQueue_new 1 None)) = Num 2
   \<and> (2::real) \<in> \<int>
   \<and> real (length (running (qrun three_adds (ProcessQueue_new 1 None)))) \<le> 2
   \<and> (0::real) < 1
   \<and> never_below_running (three_adds @ []) (ProcessQueue_new 1 (Some (Num 1)))
   \<and> maxConcurrent (qrun three_adds (ProcessQueue_new 1 (Some (Num 1)))) = Num 1
   \<and> real (length (running (qrun three_adds (ProcessQueue_new 1 (Some (Num 1)))))) \<le> 1
   \<and> never_below_running (nan_run @ []) (ProcessQueue_new 1 None)
   \<and> maxConcurrent (qrun nan_run (ProcessQueue_new 1 None)) = NaN
   \<and> running (qrun nan_run (ProcessQueue_new 1 None)) = []
   \<and> \<not> within_ceiling (qrun lowered_run (ProcessQueue_new 1 None))
   \<and> within_ceiling (qrun [hd draining_run] (qrun lowered_run (ProcessQueue_new 1 None)))
   \<and> never_below_running (tl draining_run @ [])
        (qrun [hd draining_run] (qrun lowered_run (ProcessQueue_new 1 None)))
   \<and> within_ceiling (qrun (lowered_run @ draining_run) (ProcessQueue_new 1 None))
   \<and> \<not> within_ceiling (two_running\<lparr> maxConcurrent := clamp (Num 1) \<rparr>)
   \<and> setMaxConcurrent (Num 1) two_running = (two_running\<lparr> maxConcurrent := clamp (Num 1) \<rparr>, [])
   \<and> item_id (item ''a'') \<in> set (running two_running)
   \<and> length (running (fst (executeTask (item ''a'') (Returned None :: unit outcome) two_running)))
        < length (running two_running)"
proof -
  let ?new = "ProcessQueue_new 1 None :: unit ProcessQueue"
  let ?low = "qrun lowered_run ?new"
  let ?one = "qrun [hd draining_run] ?low"
  have h0: "(0::int) \<le> 1" by simp
  have h1: "never_below_running (steady_run @ []) ?new"
    using steady_run_never_below by simp
  have m1: "maxConcurrent (qrun steady_run ?new) = Num (5 / 2)"
    by (simp add: steady_run_result)
  have l1: "length (running (qrun steady_run ?new)) = 3"
    by (simp add: steady_run_result)
  have c1: "real (length (running (qrun steady_run ?new))) < 5 / 2 + 1"
    using running_within_ceiling [where CPU_CORES = 1 and mc = None and evs = steady_run
        and rest = "[]" and c = "5 / 2"] h0 h1 m1
    by blast
  have h2: "never_below_running (three_adds @ []) ?new"
    by (simp add: three_adds_def queue_defs)
  have m2: "maxConcurrent (qrun three_adds ?new) = Num 2"
    by (simp add: three_adds_result)
  have i2: "(2::real) \<in> \<int>" by simp
  have c2: "real (length (running (qrun three_adds ?new))) \<le> 2"
    using running_within_ceiling [where CPU_CORES = 1 and mc = None and evs = three_adds
        and rest = "[]" and c = 2] h0 h2 m2 i2
    by blast
  let ?one_at_a_time = "ProcessQueue_new 1 (Some (Num 1)) :: unit ProcessQueue"
  have k7: "(0::real) < 1" by simp
  have r7: "qrun three_adds ?one_at_a_time =
      \<lparr> maxConcurrent = Num 1, running = [js ''a''], queue = [item ''b'', item ''c''] \<rparr>"
    by (simp add: three_adds_def falsy_def queue_defs)
  have h7: "never_below_running (three_adds @ []) ?one_at_a_time"
    by (simp add: three_adds_def falsy_def queue_defs)
  have m7: "maxConcurrent (qrun three_adds ?one_at_a_time) = Num 1"
    by (simp add: r7)
  have i7: "(1::real) \<in> \<int>" by simp
  have c7: "real (length (running (qrun three_adds ?one_at_a_time))) \<le> 1"
    using running_within_ceiling [where CPU_CORES = 1 and mc = "Some (Num 1)" and k = 1
        and evs = three_adds and rest = "[]" and c = 1] h0 k7 h7 m7 i7
    by blast
  have h3: "never_below_running (nan_run @ []) ?new"
    using nan_run_never_below by simp
  have m3: "maxConcurrent (qrun nan_run ?new) = NaN"
    by (simp add: nan_run_result)
  have c3: "running (qrun nan_run ?new) = []"
    using running_within_ceiling [where CPU_CORES = 1 and mc = None and evs = nan_run
        and rest = "[]"] h0 h3 m3
    by blast
  have low: "?low = \<lparr> maxConcurrent = Num 1, running = [js ''a'', js ''b''], queue = [] \<rparr>"
    by (rule lowered_run_result)
  have n4: "\<not> within_ceiling ?low"
    unfolding low by (simp add: within_ceiling_def)
  have one: "?one = \<lparr> maxConcurrent = Num 1, running = [js ''b''], queue = [] \<rparr>"
    unfolding low by (simp add: draining_run_def queue_defs)
  have w4: "within_ceiling ?one"
    unfolding one by (simp add: within_ceiling_def)
  have h4: "never_below_running (tl draining_run @ []) ?one"
    unfolding one by (simp add: draining_run_def queue_defs)
  have e4: "qrun (lowered_run @ draining_run) ?new = qrun (tl draining_run) ?one"
    by (simp add: qrun_append draining_run_def)
  have c4: "within_ceiling (qrun (lowered_run @ draining_run) ?new)"
    unfolding e4
    using running_within_ceiling [where q = ?one and evs' = "tl draining_run" and rest' = "[]"]
      w4 h4
    by blast
  have n5: "\<not> within_ceiling (two_running\<lparr> maxConcurrent := clamp (Num 1) \<rparr>)"
    by (simp add: two_running_def within_ceiling_def clamp_def)
  have c5: "setMaxConcurrent (Num 1) two_running
      = (two_running\<lparr> maxConcurrent := clamp (Num 1) \<rparr>, [])"
    using running_within_ceiling [where q = two_running and x = "Num 1"] n5 by blast
  have h6: "item_id (item ''a'') \<in> set (running two_running)"
    by (simp add: two_running_def item_def)
  have c6: "length (running (fst (executeTask (item ''a'') (Returned None :: unit outcome) two_running)))
      < length (running two_running)"
    using running_within_ceiling [where q = two_running and it = "item ''a''"
        and out = "Returned None :: unit outcome"] h6
    by blast
  from h0 h1 m1 l1 c1 h2 m2 i2 c2 k7 h7 m7 c7 h3 m3 c3 n4 w4 h4 c4 n5 c5 h6 c6
  show ?thesis by blast
qed

text \<open>
  C3: a task whose execution throws the cancellation error has its promise resolved with
  \<open>null\<close>, not rejected; the promise is rejected exactly when the task throws an error
  with another message, so the aggregate over the task promises sees no rejection that
  is due to cancellation.
\<close>

theorem cancellation_resolves_with_null:
  "(message e = cancelled_message \<longrightarrow>
      snd (executeTask queueItem (Threw e) q) = (Resolved None :: 'r settlement))
   \<and> (snd (executeTask queueItem out q) = (Rejected e :: 'r settlement)
        \<longleftrightarrow> out = Threw e \<and> message e \<noteq> cancelled_message)"
  by (cases out) (auto simp: executeTask_def settle_def)

theorem cancellation_resolves_with_null_witness:
  "message (Error cancelled_message) = cancelled_message
   \<and> snd (executeTask (item ''a'') (Threw (Error cancelled_message)) waiting_queue)
       = (Resolved None :: unit settlement)
   \<and> snd (executeTask (item ''a'') (Threw (Error (js ''Piper failed''))) waiting_queue)
       = (Rejected (Error (js ''Piper failed'')) :: unit settlement)"
proof -
  have a: "message (Error (js ''Piper failed'')) \<noteq> cancelled_message"
    by (simp add: cancelled_message_def js_def)
  have b: "message (Error cancelled_message) = cancelled_message"
    by simp
  have "snd (executeTask (item ''a'') (Threw (Error cancelled_message)) waiting_queue)
       = (Resolved None :: unit settlement)"
    using cancellation_resolves_with_null
      [of "Error cancelled_message" "item ''a''" waiting_queue "Threw (Error cancelled_message)"] b
    by blast
  moreover have "snd (executeTask (item ''a'') (Threw (Error (js ''Piper failed''))) waiting_queue)
       = (Rejected (Error (js ''Piper failed'')) :: unit settlement)"
    using cancellation_resolves_with_null
      [of "Error (js ''Piper failed'')" "item ''a''" waiting_queue
          "Threw (Error (js ''Piper failed''))"] a
    by blast
  ultimately show ?thesis using b by blast
qed

text \<open>
  C7: for every integer \<open>n\<close>, \<open>setMaxConcurrent(n)\<close> sets the ceiling to \<open>n\<close> clamped into
  1..32 and at once admits waiting tasks in their order until none waits or the ceiling
  is reached, so at least the first when the new ceiling exceeds the running count; every
  task that was running still is.
\<close>

theorem setMaxConcurrent_clamps_and_admits:
  "maxConcurrent (fst (setMaxConcurrent (Num (of_int n)) q)) = Num (of_int (max 1 (min 32 n)))
   \<and> number_le (Num 1) (maxConcurrent (fst (setMaxConcurrent (Num (of_int n)) q)))
   \<and> number_le (maxConcurrent (fst (setMaxConcurrent (Num (of_int n)) q))) (Num 32)
   \<and> queue q = snd (setMaxConcurrent (Num (of_int n)) q)
                  @ queue (fst (setMaxConcurrent (Num (of_int n)) q))
   \<and> (queue (fst (setMaxConcurrent (Num (of_int n)) q)) = []
        \<or> number_le (maxConcurrent (fst (setMaxConcurrent (Num (of_int n)) q)))
             (set_size (running (fst (setMaxConcurrent (Num (of_int n)) q)))))
   \<and> (queue q \<noteq> [] \<and> int (length (running q)) < max 1 (min 32 n)
        \<longrightarrow> snd (setMaxConcurrent (Num (of_int n)) q) \<noteq> []
            \<and> hd (snd (setMaxConcurrent (Num (of_int n)) q)) = hd (queue q))
   \<and> set (running (fst (setMaxConcurrent (Num (of_int n)) q)))
        = set (running q) \<union> item_id ` set (snd (setMaxConcurrent (Num (of_int n)) q))
   \<and> set (running q) \<subseteq> set (running (fst (setMaxConcurrent (Num (of_int n)) q)))"
proof -
  let ?k = "max 1 (min 32 n)"
  let ?q = "q\<lparr> maxConcurrent := Num (of_int ?k) \<rparr>"
  obtain q' started where p: "processQueue ?q = (q', started)" by (cases "processQueue ?q")
  have q: "queue ?q = queue q" "running ?q = running q" "maxConcurrent ?q = Num (of_int ?k)"
    by simp_all
  from processQueue_result [OF p]
  have r: "queue q = started @ queue q'"
    "queue q' = [] \<or> \<not> number_lt (set_size (running q')) (maxConcurrent q')"
    "set (running q') = set (running q) \<union> item_id ` set started"
    "maxConcurrent q' = Num (of_int ?k)" unfolding q by blast+
  from r(2) have full: "queue q' = [] \<or> number_le (maxConcurrent q') (set_size (running q'))"
    unfolding r(4) by (auto simp: set_size_def)
  have adm: "queue q \<noteq> [] \<and> int (length (running q)) < ?k
      \<longrightarrow> started \<noteq> [] \<and> hd started = hd (queue q)"
  proof
    assume a: "queue q \<noteq> [] \<and> int (length (running q)) < ?k"
    then have "(of_int (int (length (running q))) :: real) < of_int ?k"
      by (simp only: of_int_less_iff)
    then have "number_lt (set_size (running ?q)) (maxConcurrent ?q)"
      by (simp add: set_size_def)
    with a have "processQueue ?q = (fst (processQueue (?q\<lparr> queue := tl (queue ?q),
          running := set_add (item_id (hd (queue ?q))) (running ?q) \<rparr>)),
        hd (queue ?q) # snd (processQueue (?q\<lparr> queue := tl (queue ?q),
          running := set_add (item_id (hd (queue ?q))) (running ?q) \<rparr>)))"
      by (intro processQueue_go) simp_all
    with p show "started \<noteq> [] \<and> hd started = hd (queue q)" by auto
  qed
  have f: "fst (setMaxConcurrent (Num (of_int n)) q) = q'"
    "snd (setMaxConcurrent (Num (of_int n)) q) = started"
    using p by (simp_all add: setMaxConcurrent_def clamp_of_int)
  have c: "number_le (Num 1) (maxConcurrent q')" "number_le (maxConcurrent q') (Num 32)"
    unfolding r(4) by simp_all
  have m: "set (running q) \<subseteq> set (running q')" unfolding r(3) by blast
  show ?thesis unfolding f using r full adm c m by blast
qed

theorem setMaxConcurrent_clamps_and_admits_witness:
  "queue waiting_queue \<noteq> [] \<and> int (length (running waiting_queue)) < max 1 (min 32 2)
   \<and> snd (setMaxConcurrent (Num (of_int 2)) waiting_queue) \<noteq> []
   \<and> hd (snd (setMaxConcurrent (Num (of_int 2)) waiting_queue)) = hd (queue waiting_queue)
   \<and> snd (setMaxConcurrent (Num 2) waiting_queue) = [item ''b'']"
proof -
  have h: "queue waiting_queue \<noteq> [] \<and> int (length (running waiting_queue)) < max 1 (min 32 2)"
    by (simp add: waiting_queue_def)
  have "snd (setMaxConcurrent (Num (of_int 2)) waiting_queue) \<noteq> []
      \<and> hd (snd (setMaxConcurrent (Num (of_int 2)) waiting_queue)) = hd (queue waiting_queue)"
    using setMaxConcurrent_clamps_and_admits [of 2 waiting_queue] h by blast
  moreover have "snd (setMaxConcurrent (Num 2) waiting_queue) = [item ''b'']"
    by (simp add: waiting_queue_raised)
  ultimately show ?thesis using h by blast
qed

section \<open>Properties of the sessions\<close>

lemma benign_refl: "benign c c"
  by (simp add: benign_def)

lemma benign_conv_ok: "conv_ok c \<Longrightarrow> benign c c' \<Longrightarrow> conv_ok c'"
  by (auto simp: conv_ok_def benign_def)

text \<open>A step keeps the invariant of session k when its entry is removed, or changed
  benignly with whatever was finished staying finished, or the background of k has just
  finished and the new entry is sound.\<close>

lemma sess_inv_step:
  assumes "sess_inv w k"
    and "\<And>c'. activeConversions w' k = Some c' \<Longrightarrow>
           (\<exists>c. activeConversions w k = Some c \<and> benign c c' \<and> (finished w k \<longrightarrow> finished w' k))
           \<or> (conv_ok c' \<and> finished w' k)
           \<or> (conv_ok c' \<and> \<not> completed c' \<and> \<not> failed c')"
  shows "sess_inv w' k"
  unfolding sess_inv_def
proof (intro allI impI)
  fix c' assume a: "activeConversions w' k = Some c'"
  from assms(2) [OF a] show "conv_ok c' \<and> (completed c' \<or> failed c' \<longrightarrow> finished w' k)"
  proof (elim disjE exE conjE)
    fix c assume c: "activeConversions w k = Some c" "benign c c'" "finished w k \<longrightarrow> finished w' k"
    from assms(1) c(1) have "conv_ok c" "completed c \<or> failed c \<longrightarrow> finished w k"
      by (simp_all add: sess_inv_def)
    with c show ?thesis by (auto simp: benign_conv_ok benign_def)
  qed auto
qed

lemma task_start_at:
  "fst (task_start cid p f reg) k = Some c' \<Longrightarrow> \<exists>c. reg k = Some c \<and> benign c c'"
  by (auto simp: task_start_def benign_def split: if_splits option.splits)

lemma progressCallback_at:
  "progressCallback cid p now reg k = Some c' \<Longrightarrow> \<exists>c. reg k = Some c \<and> benign c c'"
  by (auto simp: progressCallback_def benign_def split: if_splits option.splits)

lemma task_finish_at:
  "fst (task_finish cid i ss n g now reg) k = Some c' \<Longrightarrow> \<exists>c. reg k = Some c \<and> benign c c'"
  by (auto simp: task_finish_def benign_refl dest: progressCallback_at split: if_splits sum.splits)

lemma cancel_at:
  "fst (snd (cancel_conversion cid now reg)) k = Some c' \<Longrightarrow> \<exists>c. reg k = Some c \<and> benign c c'"
  by (auto simp: cancel_conversion_def benign_def split: if_splits option.splits)

lemma cleanup_at:
  "cleanup now reg k = Some c' \<Longrightarrow> reg k = Some c'"
  by (auto simp: cleanup_def split: if_splits option.splits)

lemma catch_block_at:
  "catch_block cid e now reg k = Some c' \<Longrightarrow>
   \<exists>c. reg k = Some c \<and> (c' = c \<or> k = cid \<and> c' = c\<lparr> cancelled := True, cancelledAt := Some now \<rparr>
      \<or> k = cid \<and> c' = c\<lparr> error := Some (message e), failed := True \<rparr>)"
  by (auto simp: catch_block_def split: if_splits option.splits)

lemma after_mp3_at:
  "after_mp3 cid m n enc now reg k = Some c' \<Longrightarrow>
   \<exists>c. reg k = Some c \<and> (c' = c
      \<or> k = cid \<and> c' = c\<lparr> cancelled := True, cancelledAt := Some now \<rparr>
      \<or> k = cid \<and> (\<exists>e. c' = c\<lparr> error := Some (message e), failed := True \<rparr>)
      \<or> k = cid \<and> \<not> cancelled c \<and> (\<exists>r. c' = c\<lparr> completed := True, result := Some r, completedAt := Some now \<rparr>))"
  unfolding after_mp3_def
  by (cases enc) (auto dest!: catch_block_at split: option.splits if_splits)

text \<open>What a background that has not finished may do to its session.\<close>

lemma unfinished_update:
  assumes "conv_ok c" "\<not> completed c" "\<not> failed c"
  shows "conv_ok (c\<lparr> cancelled := True, cancelledAt := Some now \<rparr>)"
    and "conv_ok (c\<lparr> error := Some m, failed := True \<rparr>)"
    and "\<not> cancelled c \<Longrightarrow> conv_ok (c\<lparr> completed := True, result := Some r, completedAt := Some now \<rparr>)"
  using assms by (auto simp: conv_ok_def)

lemma sess_inv_set_phase:
  assumes inv: "sess_inv w k" and b: "backgrounds w cid = Some b" and nf: "phase b \<noteq> Finished"
    and upd: "\<And>c'. reg' k = Some c' \<Longrightarrow>
       \<exists>c. activeConversions w k = Some c \<and>
           (benign c c' \<or> k = cid \<and> bg_update cid now c c' \<and> ph = Finished)"
  shows "sess_inv (set_phase cid b ph (w\<lparr> activeConversions := reg' \<rparr>)) k"
  unfolding sess_inv_def
proof (intro allI impI)
  let ?w = "set_phase cid b ph (w\<lparr> activeConversions := reg' \<rparr>)"
  fix c' assume "activeConversions ?w k = Some c'"
  then have r: "reg' k = Some c'" by (simp add: set_phase_def)
  from upd [OF r] obtain c where c: "activeConversions w k = Some c"
    and alt: "benign c c' \<or> k = cid \<and> bg_update cid now c c' \<and> ph = Finished" by blast
  from inv c have ok: "conv_ok c" and fin: "completed c \<or> failed c \<longrightarrow> finished w k"
    by (simp_all add: sess_inv_def)
  have nfin: "\<not> finished w cid" using b nf by (simp add: finished_def)
  have keep: "k \<noteq> cid \<Longrightarrow> finished w k \<Longrightarrow> finished ?w k"
    by (simp add: finished_def set_phase_def)
  from alt show "conv_ok c' \<and> (completed c' \<or> failed c' \<longrightarrow> finished ?w k)"
  proof
    assume bn: "benign c c'"
    then have "conv_ok c'" using ok by (rule benign_conv_ok [rotated])
    moreover have "completed c' \<or> failed c' \<longrightarrow> finished ?w k"
    proof
      assume "completed c' \<or> failed c'"
      with bn have "completed c \<or> failed c" by (simp add: benign_def)
      with fin have f: "finished w k" by simp
      with nfin have "k \<noteq> cid" by auto
      with f show "finished ?w k" by (simp add: keep)
    qed
    ultimately show ?thesis by simp
  next
    assume s: "k = cid \<and> bg_update cid now c c' \<and> ph = Finished"
    with fin nfin have un: "\<not> completed c" "\<not> failed c" by auto
    have "finished ?w k" using s by (simp add: finished_def set_phase_def)
    moreover have "conv_ok c'"
      using s unfinished_update [OF ok un] by (auto simp: bg_update_def)
    ultimately show ?thesis by simp
  qed
qed

lemma sess_TaskStart:
  assumes "sess_inv w k"
  shows "sess_inv (wstep (TaskStart cid i p f) w) k"
proof (cases "backgrounds w cid")
  case None
  with assms show ?thesis by simp
next
  case (Some b)
  show ?thesis
  proof (cases "phase b")
    case (Synthesis tasks n)
    show ?thesis
    proof (cases "i < length tasks \<and> tasks ! i = Queued")
      case True
      have "wstep (TaskStart cid i p f) w =
          set_phase cid b (Synthesis (tasks[i := snd (task_start cid p f (activeConversions w))]) n)
            (w\<lparr> activeConversions := fst (task_start cid p f (activeConversions w)) \<rparr>)"
        using Some Synthesis True by (simp add: case_prod_beta)
      moreover have "sess_inv \<dots> k"
        using assms Some
      proof (rule sess_inv_set_phase)
        show "phase b \<noteq> Finished" using Synthesis by simp
      next
        fix c' assume "fst (task_start cid p f (activeConversions w)) k = Some c'"
        from task_start_at [OF this]
        show "\<exists>c. activeConversions w k = Some c \<and>
           (benign c c' \<or> k = cid \<and> bg_update cid 0 c c' \<and>
             Synthesis (tasks[i := snd (task_start cid p f (activeConversions w))]) n = Finished)"
          by blast
      qed
      ultimately show ?thesis by simp
    next
      case False
      with assms Some Synthesis show ?thesis by auto
    qed
  qed (use assms Some in simp_all)
qed

lemma after_synthesis_at:
  "fst (after_synthesis cid col p now reg) k = Some c' \<Longrightarrow>
   \<exists>c. reg k = Some c \<and> (benign c c'
      \<or> k = cid \<and> bg_update cid now c c' \<and> snd (after_synthesis cid col p now reg) = Finished)"
  unfolding after_synthesis_def bg_update_def
  by (cases col) (auto simp: benign_refl dest!: catch_block_at split: if_splits)

lemma after_concat_at:
  "fst (after_concat cid col now reg) k = Some c' \<Longrightarrow>
   \<exists>c. reg k = Some c \<and> (benign c c'
      \<or> k = cid \<and> bg_update cid now c c' \<and> snd (after_concat cid col now reg) = Finished)"
  unfolding after_concat_def bg_update_def
  by (cases col) (auto simp: benign_refl dest!: catch_block_at split: if_splits)

lemma after_mp3_at':
  "after_mp3 cid m n enc now reg k = Some c' \<Longrightarrow>
   \<exists>c. reg k = Some c \<and> (benign c c' \<or> k = cid \<and> bg_update cid now c c' \<and> Finished = Finished)"
  unfolding bg_update_def
  by (drule after_mp3_at) (auto simp: benign_refl)

lemma sess_TaskClose:
  assumes "sess_inv w k"
  shows "sess_inv (wstep (TaskClose cid i code err now) w) k"
proof (cases "backgrounds w cid")
  case None
  with assms show ?thesis by simp
next
  case (Some b)
  show ?thesis
  proof (cases "phase b")
    case (Synthesis tasks n)
    show ?thesis
    proof (cases "i < length tasks")
      case True
      show ?thesis
      proof (cases "tasks ! i")
        case (Spawned outputFile)
        define tf where "tf = task_finish cid i (validSentences b) n
            (generateAudio_close code err outputFile (activeConversions w) cid) now (activeConversions w)"
        have "wstep (TaskClose cid i code err now) w =
          set_phase cid b (Synthesis (tasks[i := Settled (settle (snd (snd tf)))]) (fst (snd tf)))
            (w\<lparr> activeConversions := fst tf \<rparr>)"
          using Some Synthesis True Spawned by (simp add: case_prod_beta tf_def)
        moreover have "sess_inv \<dots> k"
          using assms Some
        proof (rule sess_inv_set_phase)
          show "phase b \<noteq> Finished" using Synthesis by simp
        next
          fix c' assume "fst tf k = Some c'"
          then show "\<exists>c. activeConversions w k = Some c \<and>
             (benign c c' \<or> k = cid \<and> bg_update cid 0 c c' \<and>
               Synthesis (tasks[i := Settled (settle (snd (snd tf)))]) (fst (snd tf)) = Finished)"
            unfolding tf_def by (blast dest: task_finish_at)
        qed
        ultimately show ?thesis by simp
      qed (use assms Some Synthesis True in simp_all)
    next
      case False
      with assms Some Synthesis show ?thesis by simp
    qed
  qed (use assms Some in simp_all)
qed

lemma sess_TaskError:
  assumes "sess_inv w k"
  shows "sess_inv (wstep (TaskError cid i err) w) k"
proof (cases "backgrounds w cid")
  case None
  with assms show ?thesis by simp
next
  case (Some b)
  show ?thesis
  proof (cases "phase b")
    case (Synthesis tasks n)
    show ?thesis
    proof (cases "i < length tasks")
      case True
      show ?thesis
      proof (cases "tasks ! i")
        case (Spawned outputFile)
        have "wstep (TaskError cid i err) w =
          set_phase cid b (Synthesis (tasks[i := Settled (settle (Threw err))]) n)
            (w\<lparr> activeConversions := activeConversions w \<rparr>)"
          using Some Synthesis True Spawned by simp
        moreover have "sess_inv \<dots> k"
          using assms Some
        proof (rule sess_inv_set_phase)
          show "phase b \<noteq> Finished" using Synthesis by simp
        next
          fix c' assume "activeConversions w k = Some c'"
          then show "\<exists>c. activeConversions w k = Some c \<and>
             (benign c c' \<or> k = cid \<and> bg_update cid 0 c c' \<and>
               Synthesis (tasks[i := Settled (settle (Threw err))]) n = Finished)"
            by (simp add: benign_refl)
        qed
        ultimately show ?thesis by simp
      qed (use assms Some Synthesis True in simp_all)
    next
      case False
      with assms Some Synthesis show ?thesis by simp
    qed
  qed (use assms Some in simp_all)
qed

lemma sess_AllSettled:
  assumes "sess_inv w k"
  shows "sess_inv (wstep (AllSettled cid p now) w) k"
proof (cases "backgrounds w cid")
  case None
  with assms show ?thesis by simp
next
  case (Some b)
  show ?thesis
  proof (cases "phase b")
    case (Synthesis tasks n)
    show ?thesis
    proof (cases "list_all settled tasks")
      case True
      define a where "a = after_synthesis cid
          (generateAudioParallel_collect (map settlement_of tasks) (activeConversions w) cid)
          p now (activeConversions w)"
      have "wstep (AllSettled cid p now) w =
          set_phase cid b (snd a) (w\<lparr> activeConversions := fst a \<rparr>)"
        using Some Synthesis True by (simp add: case_prod_beta a_def)
      moreover have "sess_inv \<dots> k"
        using assms Some
      proof (rule sess_inv_set_phase)
        show "phase b \<noteq> Finished" using Synthesis by simp
      next
        fix c' assume "fst a k = Some c'"
        then show "\<exists>c. activeConversions w k = Some c \<and>
           (benign c c' \<or> k = cid \<and> bg_update cid now c c' \<and> snd a = Finished)"
          unfolding a_def by (rule after_synthesis_at)
      qed
      ultimately show ?thesis by simp
    next
      case False
      with assms Some Synthesis show ?thesis by simp
    qed
  qed (use assms Some in simp_all)
qed

lemma sess_ConcatDone:
  assumes "sess_inv w k"
  shows "sess_inv (wstep (ConcatDone cid fe now) w) k"
proof (cases "backgrounds w cid")
  case None
  with assms show ?thesis by simp
next
  case (Some b)
  show ?thesis
  proof (cases "phase b")
    case (Concat files path)
    define a where "a = after_concat cid (concatenateAudio files path fe) now (activeConversions w)"
    have "wstep (ConcatDone cid fe now) w =
        set_phase cid b (snd a) (w\<lparr> activeConversions := fst a \<rparr>)"
      using Some Concat by (simp add: case_prod_beta a_def)
    moreover have "sess_inv \<dots> k"
      using assms Some
    proof (rule sess_inv_set_phase)
      show "phase b \<noteq> Finished" using Concat by simp
    next
      fix c' assume "fst a k = Some c'"
      then show "\<exists>c. activeConversions w k = Some c \<and>
         (benign c c' \<or> k = cid \<and> bg_update cid now c c' \<and> snd a = Finished)"
        unfolding a_def by (rule after_concat_at)
    qed
    ultimately show ?thesis by simp
  qed (use assms Some in simp_all)
qed

lemma sess_Mp3Done:
  assumes "sess_inv w k"
  shows "sess_inv (wstep (Mp3Done cid fe enc now) w) k"
proof (cases "backgrounds w cid")
  case None
  with assms show ?thesis by simp
next
  case (Some b)
  show ?thesis
  proof (cases "phase b")
    case (Mp3 path)
    define a where "a = after_mp3 cid (modelName b) (sentences_length b)
        (convertToMp3_read fe enc) now (activeConversions w)"
    have "wstep (Mp3Done cid fe enc now) w =
        set_phase cid b Finished (w\<lparr> activeConversions := a \<rparr>)"
      using Some Mp3 by (simp add: a_def)
    moreover have "sess_inv \<dots> k"
      using assms Some
    proof (rule sess_inv_set_phase)
      show "phase b \<noteq> Finished" using Mp3 by simp
    next
      fix c' assume "a k = Some c'"
      then show "\<exists>c. activeConversions w k = Some c \<and>
         (benign c c' \<or> k = cid \<and> bg_update cid now c c' \<and> Finished = Finished)"
        unfolding a_def by (rule after_mp3_at')
    qed
    ultimately show ?thesis by simp
  qed (use assms Some in simp_all)
qed

lemma sess_CancelRequest:
  assumes "sess_inv w k"
  shows "sess_inv (wstep (CancelRequest cid now) w) k"
  using assms
proof (rule sess_inv_step)
  fix c' assume "activeConversions (wstep (CancelRequest cid now) w) k = Some c'"
  then have "fst (snd (cancel_conversion cid now (activeConversions w))) k = Some c'" by simp
  from cancel_at [OF this] obtain c where "activeConversions w k = Some c" "benign c c'" by blast
  moreover have "finished w k \<longrightarrow> finished (wstep (CancelRequest cid now) w) k"
    by (simp add: finished_def)
  ultimately show "(\<exists>c. activeConversions w k = Some c \<and> benign c c' \<and>
      (finished w k \<longrightarrow> finished (wstep (CancelRequest cid now) w) k))
    \<or> (conv_ok c' \<and> finished (wstep (CancelRequest cid now) w) k)
    \<or> (conv_ok c' \<and> \<not> completed c' \<and> \<not> failed c')" by blast
qed

lemma sess_Sweep:
  assumes "sess_inv w k"
  shows "sess_inv (wstep (Sweep now) w) k"
  using assms
proof (rule sess_inv_step)
  fix c' assume "activeConversions (wstep (Sweep now) w) k = Some c'"
  then have "cleanup now (activeConversions w) k = Some c'" by simp
  from cleanup_at [OF this] have "activeConversions w k = Some c'" .
  moreover have "finished w k \<longrightarrow> finished (wstep (Sweep now) w) k"
    by (simp add: finished_def)
  ultimately show "(\<exists>c. activeConversions w k = Some c \<and> benign c c' \<and>
      (finished w k \<longrightarrow> finished (wstep (Sweep now) w) k))
    \<or> (conv_ok c' \<and> finished (wstep (Sweep now) w) k)
    \<or> (conv_ok c' \<and> \<not> completed c' \<and> \<not> failed c')" by (blast intro: benign_refl)
qed

lemma sess_Convert:
  assumes "sess_inv w k"
  shows "sess_inv (wstep (Convert cid ss m now) w) k"
proof (cases "backgrounds w cid \<noteq> None \<or> activeConversions w cid \<noteq> None")
  case True
  with assms show ?thesis by simp
next
  case False
  show ?thesis
  proof (cases "k = cid")
    case True
    with False show ?thesis by (simp add: sess_inv_def conv_ok_def)
  next
    case ne: False
    with False assms show ?thesis by (simp add: sess_inv_def finished_def)
  qed
qed

lemma sess_wstep: "sess_inv w k \<Longrightarrow> sess_inv (wstep e w) k"
  by (cases e) (simp_all only: sess_Convert sess_TaskStart sess_TaskClose sess_TaskError
      sess_AllSettled sess_ConcatDone sess_Mp3Done sess_CancelRequest sess_Sweep)

lemma sess_wrun: "sess_inv w k \<Longrightarrow> sess_inv (wrun evs w) k"
  by (induction evs arbitrary: w) (simp_all add: sess_wstep)

lemma sess_reachable: "sess_inv (wrun evs world0) k"
  by (rule sess_wrun) (simp add: sess_inv_def world0_def)

lemma settle_success:
  "settle out = Resolved (Some r) \<Longrightarrow> out = Returned (Some r)"
  by (cases out) (auto simp: settle_def split: if_splits)

lemma task_start_not_success:
  "snd (task_start cid p f reg) \<noteq> Settled (Resolved (Some r))"
  by (simp add: task_start_def settle_def)

lemma task_finish_index:
  "snd (snd (task_finish cid i ss n g now reg)) = Returned (Some r) \<Longrightarrow> index r = i"
  by (auto simp: task_finish_def split: sum.splits if_splits)

lemma tasks_inv_update:
  assumes "\<forall>j<length tasks. \<forall>r. tasks ! j = Settled (Resolved (Some r)) \<longrightarrow> index r = j"
    and "\<And>r. t = Settled (Resolved (Some r)) \<Longrightarrow> index r = i"
  shows "\<forall>j<length (tasks[i := t]). \<forall>r. (tasks[i := t]) ! j = Settled (Resolved (Some r)) \<longrightarrow> index r = j"
proof (intro allI impI)
  fix j r assume j: "j < length (tasks[i := t])" and e: "(tasks[i := t]) ! j = Settled (Resolved (Some r))"
  show "index r = j"
  proof (cases "j = i")
    case True
    with j e have "t = Settled (Resolved (Some r))" by simp
    with assms(2) True show ?thesis by simp
  next
    case False
    with j e have "tasks ! j = Settled (Resolved (Some r))" "j < length tasks" by simp_all
    with assms(1) show ?thesis by blast
  qed
qed

lemma tasks_inv_set_phase:
  assumes "tasks_inv w k" and "backgrounds w cid = Some b"
    and "\<And>tasks n. k = cid \<Longrightarrow> ph = Synthesis tasks n \<Longrightarrow>
           \<forall>j<length tasks. \<forall>r. tasks ! j = Settled (Resolved (Some r)) \<longrightarrow> index r = j"
  shows "tasks_inv (set_phase cid b ph (w\<lparr> activeConversions := reg' \<rparr>)) k"
  using assms unfolding tasks_inv_def set_phase_def by (cases "k = cid") auto

lemma tasks_TaskStart:
  assumes "tasks_inv w k"
  shows "tasks_inv (wstep (TaskStart cid i p f) w) k"
proof (cases "backgrounds w cid")
  case None
  with assms show ?thesis by simp
next
  case (Some b)
  show ?thesis
  proof (cases "phase b")
    case (Synthesis tasks n)
    show ?thesis
    proof (cases "i < length tasks \<and> tasks ! i = Queued")
      case True
      have old: "k = cid \<Longrightarrow> \<forall>j<length tasks. \<forall>r. tasks ! j = Settled (Resolved (Some r)) \<longrightarrow> index r = j"
        using assms Some Synthesis unfolding tasks_inv_def by blast
      have "wstep (TaskStart cid i p f) w =
          set_phase cid b (Synthesis (tasks[i := snd (task_start cid p f (activeConversions w))]) n)
            (w\<lparr> activeConversions := fst (task_start cid p f (activeConversions w)) \<rparr>)"
        using Some Synthesis True by (simp add: case_prod_beta)
      moreover have "tasks_inv \<dots> k"
        using assms Some
      proof (rule tasks_inv_set_phase)
        fix ts m assume k: "k = cid"
          and "Synthesis (tasks[i := snd (task_start cid p f (activeConversions w))]) n = Synthesis ts m"
        then have ts: "ts = tasks[i := snd (task_start cid p f (activeConversions w))]" by simp
        show "\<forall>j<length ts. \<forall>r. ts ! j = Settled (Resolved (Some r)) \<longrightarrow> index r = j"
          unfolding ts using old [OF k]
          by (rule tasks_inv_update) (simp add: task_start_not_success)
      qed
      ultimately show ?thesis by simp
    next
      case False
      with assms Some Synthesis show ?thesis by auto
    qed
  qed (use assms Some in simp_all)
qed

lemma tasks_TaskClose:
  assumes "tasks_inv w k"
  shows "tasks_inv (wstep (TaskClose cid i code err now) w) k"
proof (cases "backgrounds w cid")
  case None
  with assms show ?thesis by simp
next
  case (Some b)
  show ?thesis
  proof (cases "phase b")
    case (Synthesis tasks n)
    show ?thesis
    proof (cases "i < length tasks")
      case True
      show ?thesis
      proof (cases "tasks ! i")
        case (Spawned outputFile)
        define tf where "tf = task_finish cid i (validSentences b) n
            (generateAudio_close code err outputFile (activeConversions w) cid) now (activeConversions w)"
        have old: "k = cid \<Longrightarrow> \<forall>j<length tasks. \<forall>r. tasks ! j = Settled (Resolved (Some r)) \<longrightarrow> index r = j"
          using assms Some Synthesis unfolding tasks_inv_def by blast
        have "wstep (TaskClose cid i code err now) w =
          set_phase cid b (Synthesis (tasks[i := Settled (settle (snd (snd tf)))]) (fst (snd tf)))
            (w\<lparr> activeConversions := fst tf \<rparr>)"
          using Some Synthesis True Spawned by (simp add: case_prod_beta tf_def)
        moreover have "tasks_inv \<dots> k"
          using assms Some
        proof (rule tasks_inv_set_phase)
          fix ts m assume k: "k = cid"
            and "Synthesis (tasks[i := Settled (settle (snd (snd tf)))]) (fst (snd tf)) = Synthesis ts m"
          then have ts: "ts = tasks[i := Settled (settle (snd (snd tf)))]" by simp
          show "\<forall>j<length ts. \<forall>r. ts ! j = Settled (Resolved (Some r)) \<longrightarrow> index r = j"
            unfolding ts using old [OF k]
          proof (rule tasks_inv_update)
            fix r assume "Settled (settle (snd (snd tf))) = Settled (Resolved (Some r))"
            then have "snd (snd tf) = Returned (Some r)" by (simp add: settle_success)
            then show "index r = i" unfolding tf_def by (rule task_finish_index)
          qed
        qed
        ultimately show ?thesis by simp
      qed (use assms Some Synthesis True in simp_all)
    next
      case False
      with assms Some Synthesis show ?thesis by simp
    qed
  qed (use assms Some in simp_all)
qed

lemma tasks_TaskError:
  assumes "tasks_inv w k"
  shows "tasks_inv (wstep (TaskError cid i err) w) k"
proof (cases "backgrounds w cid")
  case None
  with assms show ?thesis by simp
next
  case (Some b)
  show ?thesis
  proof (cases "phase b")
    case (Synthesis tasks n)
    show ?thesis
    proof (cases "i < length tasks")
      case True
      show ?thesis
      proof (cases "tasks ! i")
        case (Spawned outputFile)
        have old: "k = cid \<Longrightarrow> \<forall>j<length tasks. \<forall>r. tasks ! j = Settled (Resolved (Some r)) \<longrightarrow> index r = j"
          using assms Some Synthesis unfolding tasks_inv_def by blast
        have "wstep (TaskError cid i err) w =
          set_phase cid b (Synthesis (tasks[i := Settled (settle (Threw err))]) n)
            (w\<lparr> activeConversions := activeConversions w \<rparr>)"
          using Some Synthesis True Spawned by simp
        moreover have "tasks_inv \<dots> k"
          using assms Some
        proof (rule tasks_inv_set_phase)
          fix ts m assume k: "k = cid"
            and "Synthesis (tasks[i := Settled (settle (Threw err))]) n = Synthesis ts m"
          then have ts: "ts = tasks[i := Settled (settle (Threw err))]" by simp
          show "\<forall>j<length ts. \<forall>r. ts ! j = Settled (Resolved (Some r)) \<longrightarrow> index r = j"
            unfolding ts using old [OF k]
            by (rule tasks_inv_update) (simp add: settle_def split: if_splits)
        qed
        ultimately show ?thesis by simp
      qed (use assms Some Synthesis True in simp_all)
    next
      case False
      with assms Some Synthesis show ?thesis by simp
    qed
  qed (use assms Some in simp_all)
qed

lemma tasks_AllSettled:
  assumes "tasks_inv w k"
  shows "tasks_inv (wstep (AllSettled cid p now) w) k"
proof (cases "backgrounds w cid")
  case None
  with assms show ?thesis by simp
next
  case (Some b)
  show ?thesis
  proof (cases "phase b")
    case (Synthesis tasks n)
    show ?thesis
    proof (cases "list_all settled tasks")
      case True
      define a where "a = after_synthesis cid
          (generateAudioParallel_collect (map settlement_of tasks) (activeConversions w) cid)
          p now (activeConversions w)"
      have ns: "\<And>ts m. snd a \<noteq> Synthesis ts m"
        unfolding a_def after_synthesis_def by (auto split: sum.splits)
      have "wstep (AllSettled cid p now) w =
          set_phase cid b (snd a) (w\<lparr> activeConversions := fst a \<rparr>)"
        using Some Synthesis True by (simp add: case_prod_beta a_def)
      moreover have "tasks_inv \<dots> k"
        using assms Some by (rule tasks_inv_set_phase) (simp add: ns)
      ultimately show ?thesis by simp
    next
      case False
      with assms Some Synthesis show ?thesis by simp
    qed
  qed (use assms Some in simp_all)
qed

lemma tasks_ConcatDone:
  assumes "tasks_inv w k"
  shows "tasks_inv (wstep (ConcatDone cid fe now) w) k"
proof (cases "backgrounds w cid")
  case None
  with assms show ?thesis by simp
next
  case (Some b)
  show ?thesis
  proof (cases "phase b")
    case (Concat files path)
    define a where "a = after_concat cid (concatenateAudio files path fe) now (activeConversions w)"
    have ns: "\<And>ts m. snd a \<noteq> Synthesis ts m"
      unfolding a_def after_concat_def by (auto split: sum.splits)
    have "wstep (ConcatDone cid fe now) w =
        set_phase cid b (snd a) (w\<lparr> activeConversions := fst a \<rparr>)"
      using Some Concat by (simp add: case_prod_beta a_def)
    moreover have "tasks_inv \<dots> k"
      using assms Some by (rule tasks_inv_set_phase) (simp add: ns)
    ultimately show ?thesis by simp
  qed (use assms Some in simp_all)
qed

lemma tasks_Mp3Done:
  assumes "tasks_inv w k"
  shows "tasks_inv (wstep (Mp3Done cid fe enc now) w) k"
proof (cases "backgrounds w cid")
  case None
  with assms show ?thesis by simp
next
  case (Some b)
  show ?thesis
  proof (cases "phase b")
    case (Mp3 path)
    have "wstep (Mp3Done cid fe enc now) w =
        set_phase cid b Finished (w\<lparr> activeConversions := after_mp3 cid (modelName b)
          (sentences_length b) (convertToMp3_read fe enc) now (activeConversions w) \<rparr>)"
      using Some Mp3 by simp
    moreover have "tasks_inv \<dots> k"
      using assms Some by (rule tasks_inv_set_phase) simp
    ultimately show ?thesis by simp
  qed (use assms Some in simp_all)
qed

lemma tasks_Convert:
  assumes "tasks_inv w k"
  shows "tasks_inv (wstep (Convert cid ss m now) w) k"
proof (cases "backgrounds w cid \<noteq> None \<or> activeConversions w cid \<noteq> None")
  case True
  with assms show ?thesis by simp
next
  case False
  with assms show ?thesis by (cases "k = cid") (auto simp: tasks_inv_def)
qed

lemma tasks_wstep: "tasks_inv w k \<Longrightarrow> tasks_inv (wstep e w) k"
proof (cases e)
  case (CancelRequest cid now)
  assume "tasks_inv w k"
  with CancelRequest show ?thesis by (simp add: tasks_inv_def)
next
  case (Sweep now)
  assume "tasks_inv w k"
  with Sweep show ?thesis by (simp add: tasks_inv_def)
qed (simp_all only: tasks_Convert tasks_TaskStart tasks_TaskClose tasks_TaskError
      tasks_AllSettled tasks_ConcatDone tasks_Mp3Done)

lemma tasks_wrun: "tasks_inv w k \<Longrightarrow> tasks_inv (wrun evs w) k"
  by (induction evs arbitrary: w) (simp_all add: tasks_wstep)

lemma tasks_reachable: "tasks_inv (wrun evs world0) k"
  by (rule tasks_wrun) (simp add: tasks_inv_def world0_def)

text \<open>Successes that carry their position are in increasing order of index.\<close>

lemma successfulResults_offset:
  assumes "\<forall>j<length rs. \<forall>r. rs ! j = Resolved (Some r) \<longrightarrow> index r = k + j"
  shows "sorted_wrt (<) (map index (successfulResults rs))
       \<and> (\<forall>r\<in>set (successfulResults rs). k \<le> index r \<and> index r < k + length rs
             \<and> rs ! (index r - k) = Resolved (Some r))
       \<and> (\<forall>j<length rs. \<forall>r. rs ! j = Resolved (Some r) \<longrightarrow> r \<in> set (successfulResults rs))"
  using assms
proof (induction rs arbitrary: k rule: successfulResults.induct)
  case 1
  then show ?case by simp
next
  case (2 v rs)
  have tl: "\<forall>j<length rs. \<forall>r. rs ! j = Resolved (Some r) \<longrightarrow> index r = Suc k + j"
    using "2.prems" by (metis Suc_less_eq add_Suc_shift length_Cons nth_Cons_Suc)
  from "2.IH" [OF tl] have ih:
    "sorted_wrt (<) (map index (successfulResults rs))"
    "\<forall>r\<in>set (successfulResults rs). Suc k \<le> index r \<and> index r < Suc k + length rs
             \<and> rs ! (index r - Suc k) = Resolved (Some r)"
    "\<forall>j<length rs. \<forall>r. rs ! j = Resolved (Some r) \<longrightarrow> r \<in> set (successfulResults rs)"
    by blast+
  have v: "index v = k" using "2.prems" by fastforce
  have a: "sorted_wrt (<) (map index (successfulResults (Resolved (Some v) # rs)))"
    using ih(1) ih(2) v by auto
  have b: "\<forall>r\<in>set (successfulResults (Resolved (Some v) # rs)).
      k \<le> index r \<and> index r < k + length (Resolved (Some v) # rs)
      \<and> (Resolved (Some v) # rs) ! (index r - k) = Resolved (Some r)"
  proof
    fix r assume "r \<in> set (successfulResults (Resolved (Some v) # rs))"
    then consider "r = v" | "r \<in> set (successfulResults rs)" by auto
    then show "k \<le> index r \<and> index r < k + length (Resolved (Some v) # rs)
      \<and> (Resolved (Some v) # rs) ! (index r - k) = Resolved (Some r)"
    proof cases
      case 1
      then show ?thesis using v by simp
    next
      case 2
      with ih(2) have r: "Suc k \<le> index r" "index r < Suc k + length rs"
        "rs ! (index r - Suc k) = Resolved (Some r)" by blast+
      then have "index r - k = Suc (index r - Suc k)" by simp
      with r show ?thesis by simp
    qed
  qed
  have c: "\<forall>j<length (Resolved (Some v) # rs). \<forall>r. (Resolved (Some v) # rs) ! j = Resolved (Some r)
      \<longrightarrow> r \<in> set (successfulResults (Resolved (Some v) # rs))"
    using ih(3) by (auto simp: nth_Cons split: nat.splits)
  from a b c show ?case by blast
next
  case (3 rs)
  have tl: "\<forall>j<length rs. \<forall>r. rs ! j = Resolved (Some r) \<longrightarrow> index r = Suc k + j"
    using "3.prems" by (metis Suc_less_eq add_Suc_shift length_Cons nth_Cons_Suc)
  from "3.IH" [OF tl] have ih:
    "sorted_wrt (<) (map index (successfulResults rs))"
    "\<forall>r\<in>set (successfulResults rs). Suc k \<le> index r \<and> index r < Suc k + length rs
             \<and> rs ! (index r - Suc k) = Resolved (Some r)"
    "\<forall>j<length rs. \<forall>r. rs ! j = Resolved (Some r) \<longrightarrow> r \<in> set (successfulResults rs)"
    by blast+
  have b: "\<forall>r\<in>set (successfulResults (Resolved None # rs)).
      k \<le> index r \<and> index r < k + length (Resolved None # rs)
      \<and> (Resolved None # rs) ! (index r - k) = Resolved (Some r)"
  proof
    fix r assume "r \<in> set (successfulResults (Resolved None # rs))"
    then have "r \<in> set (successfulResults rs)" by simp
    with ih(2) have r: "Suc k \<le> index r" "index r < Suc k + length rs"
      "rs ! (index r - Suc k) = Resolved (Some r)" by blast+
    then have "index r - k = Suc (index r - Suc k)" by simp
    with r show "k \<le> index r \<and> index r < k + length (Resolved None # rs)
      \<and> (Resolved None # rs) ! (index r - k) = Resolved (Some r)" by simp
  qed
  have c: "\<forall>j<length (Resolved None # rs). \<forall>r. (Resolved None # rs) ! j = Resolved (Some r)
      \<longrightarrow> r \<in> set (successfulResults (Resolved None # rs))"
    using ih(3) by (auto simp: nth_Cons split: nat.splits)
  from ih(1) b c show ?case by simp
next
  case (4 e rs)
  have tl: "\<forall>j<length rs. \<forall>r. rs ! j = Resolved (Some r) \<longrightarrow> index r = Suc k + j"
    using "4.prems" by (metis Suc_less_eq add_Suc_shift length_Cons nth_Cons_Suc)
  from "4.IH" [OF tl] have ih:
    "sorted_wrt (<) (map index (successfulResults rs))"
    "\<forall>r\<in>set (successfulResults rs). Suc k \<le> index r \<and> index r < Suc k + length rs
             \<and> rs ! (index r - Suc k) = Resolved (Some r)"
    "\<forall>j<length rs. \<forall>r. rs ! j = Resolved (Some r) \<longrightarrow> r \<in> set (successfulResults rs)"
    by blast+
  have b: "\<forall>r\<in>set (successfulResults (Rejected e # rs)).
      k \<le> index r \<and> index r < k + length (Rejected e # rs)
      \<and> (Rejected e # rs) ! (index r - k) = Resolved (Some r)"
  proof
    fix r assume "r \<in> set (successfulResults (Rejected e # rs))"
    then have "r \<in> set (successfulResults rs)" by simp
    with ih(2) have r: "Suc k \<le> index r" "index r < Suc k + length rs"
      "rs ! (index r - Suc k) = Resolved (Some r)" by blast+
    then have "index r - k = Suc (index r - Suc k)" by simp
    with r show "k \<le> index r \<and> index r < k + length (Rejected e # rs)
      \<and> (Rejected e # rs) ! (index r - k) = Resolved (Some r)" by simp
  qed
  have c: "\<forall>j<length (Rejected e # rs). \<forall>r. (Rejected e # rs) ! j = Resolved (Some r)
      \<longrightarrow> r \<in> set (successfulResults (Rejected e # rs))"
    using ih(3) by (auto simp: nth_Cons split: nat.splits)
  from ih(1) b c show ?case by simp
qed

lemma sortedResults_sorted:
  assumes "sorted_wrt (<) (map index (successfulResults rs))"
  shows "sortedResults rs = successfulResults rs"
proof -
  from assms have "sorted (map index (successfulResults rs))"
    by (rule sorted_wrt_mono_rel [rotated]) simp
  then show ?thesis unfolding sortedResults_def by (rule sort_key_id_if_sorted)
qed

lemma bit_length_0: "bit_length 0 = 0"
  by (subst bit_length.simps) simp

lemma bit_length_pos: "0 < n \<Longrightarrow> bit_length n = Suc (bit_length (n div 2))"
  by (subst bit_length.simps) simp

lemmas percentage_defs = percentage_of_def to_double_def round_half_even_def bit_length_0
  bit_length_pos Let_def

lemma percentage_1_1: "percentage_of (Suc 0) (Suc 0) = Num 100"
  by (simp add: percentage_defs)

lemma percentage_1_2: "percentage_of (Suc 0) (Suc (Suc 0)) = Num 50"
proof -
  have "percentage_of 1 2 = Num 50" by (simp add: percentage_defs)
  then show ?thesis by (simp only: numeral_2_eq_2 One_nat_def)
qed

lemma percentage_2_2: "percentage_of (Suc (Suc 0)) (Suc (Suc 0)) = Num 100"
proof -
  have "percentage_of 2 2 = Num 100" by (simp add: percentage_defs)
  then show ?thesis by (simp only: numeral_2_eq_2)
qed

lemma percentage_1_3: "percentage_of (Suc 0) (Suc (Suc (Suc 0))) = Num 33"
proof -
  have "percentage_of 1 3 = Num 33" by (simp add: percentage_defs)
  then show ?thesis by (simp only: numeral_3_eq_3 One_nat_def)
qed

lemma percentage_2_3: "percentage_of (Suc (Suc 0)) (Suc (Suc (Suc 0))) = Num 67"
proof -
  have "percentage_of 2 3 = Num 67" by (simp add: percentage_defs)
  then show ?thesis by (simp only: numeral_2_eq_2 numeral_3_eq_3)
qed

text \<open>The double product is not the exact one: 23 of 40 is 57 percent, where the exact
  quotient 57.5 would round to 58.\<close>

lemma percentage_23_40: "percentage_of 23 40 = Num 57"
  by (simp add: percentage_defs)

lemmas turn_defs = world0_def set_phase_def task_start_def task_finish_def generateAudio_close_def
  is_cancelled_def progressCallback_def settle_def settled_def settlement_of_def
  generateAudioParallel_collect_def sortedResults_def after_synthesis_def after_concat_def
  after_mp3_def catch_block_def gone_or_cancelled_def cancel_conversion_def cleanup_def maxAge_def
  concatenateAudio_def convertToMp3_read_def show_code_def show_int_def
  trim_def is_space_def cancelled_message_def s1_def p1_def p2_def js_def
  percentage_1_1 percentage_1_2 percentage_2_2

lemma show_nat_digit: "n < 10 \<Longrightarrow> show_nat n = [48 + n]"
  by (subst show_nat.simps) simp

lemma wrun_append: "wrun (xs @ ys) w = wrun ys (wrun xs w)"
  by (induction xs arbitrary: w) simp_all

lemma one_fails_world:
  "activeConversions (wrun one_fails world0) s1 = Some (
         \<lparr> conv_id = s1, cancelled = False, processes = [p1, p2], startTime = 0,
           totalSentences = 2,
           progress = Some \<lparr> p_completed = 1, p_total = 2, p_percentage = Num 50,
                             p_currentSentence = Some 2 \<rparr>,
           lastUpdate = Some 20, completed = False, result = None, completedAt = None,
           error = None, failed = False, cancelledAt = None \<rparr>)
     \<and> backgrounds (wrun one_fails world0) s1 = Some (
         \<lparr> validSentences = [js ''Hola.'', js ''Adios.''], sentences_length = 2,
           modelName = js ''m'',
           phase = Synthesis
             [Settled (Rejected (Error (js ''Piper failed with code 1: ''))),
              Settled (Resolved (Some \<lparr> index = 1, audioFile = js ''b.wav'',
                                         sentence = js ''Adios.'' \<rparr>))] 1 \<rparr>)"
  by (simp add: one_fails_def turn_defs show_nat_digit)

lemma one_fails_assembled:
  "activeConversions (wrun (one_fails @ then_assembled) world0) s1 =
     Some \<lparr> conv_id = s1, cancelled = False, processes = [p1, p2], startTime = 0,
            totalSentences = 2,
            progress = Some \<lparr> p_completed = 1, p_total = 2, p_percentage = Num 50,
                              p_currentSentence = Some 2 \<rparr>,
            lastUpdate = Some 20, completed = True,
            result = Some \<lparr> audio = js ''data:audio/mpeg;base64,QUJD'', model = js ''m'',
                            sentenceCount = 2 \<rparr>,
            completedAt = Some 40, error = None, failed = False, cancelledAt = None \<rparr>"
  by (simp add: one_fails_def then_assembled_def turn_defs show_nat_digit)

lemma all_fail_registry:
  "activeConversions (wrun all_fail world0) s1 =
     Some (
       \<lparr> conv_id = s1, cancelled = False, processes = [p1], startTime = 0,
         totalSentences = 1, progress = None, lastUpdate = None, completed = False,
         result = None, completedAt = None,
         error = Some (js ''No sentences were processed successfully''), failed = True,
         cancelledAt = None \<rparr>)"
  by (simp add: all_fail_def turn_defs show_nat_digit)

lemma cancelled_run_registry:
  "activeConversions (wrun cancelled_run world0) s1 =
     Some (
       \<lparr> conv_id = s1, cancelled = True, processes = [], startTime = 0,
         totalSentences = 1, progress = None, lastUpdate = None, completed = False,
         result = None, completedAt = None, error = None, failed = False,
         cancelledAt = Some 30 \<rparr>)"
  by (simp add: cancelled_run_def turn_defs show_nat_digit)

lemma completed_run_registry:
  "activeConversions (wrun completed_run world0) s1 =
     Some (
       \<lparr> conv_id = s1, cancelled = False, processes = [p1], startTime = 0,
         totalSentences = 1,
         progress = Some \<lparr> p_completed = 1, p_total = 1, p_percentage = Num 100,
                           p_currentSentence = Some 1 \<rparr>,
         lastUpdate = Some 10, completed = True,
         result = Some \<lparr> audio = js ''data:audio/mpeg;base64,QUJD'', model = js ''m'',
                         sentenceCount = 1 \<rparr>,
         completedAt = Some 40, error = None, failed = False, cancelledAt = None \<rparr>)"
  by (simp add: completed_run_def turn_defs show_nat_digit)

lemma running_run_registry:
  "activeConversions (wrun running_run world0) s1 =
     Some (
       \<lparr> conv_id = s1, cancelled = False, processes = [p1], startTime = 0,
         totalSentences = 1, progress = None, lastUpdate = None, completed = False,
         result = None, completedAt = None, error = None, failed = False,
         cancelledAt = None \<rparr>)"
  by (simp add: running_run_def turn_defs show_nat_digit)

lemma out_of_order_background:
  "backgrounds (wrun out_of_order world0) s1 =
     Some \<lparr> validSentences = [js ''Hola.'', js ''Adios.''], sentences_length = 2,
           modelName = js ''m'',
           phase = Synthesis
             [Settled (Resolved (Some \<lparr> index = 0, audioFile = js ''a.wav'',
                                         sentence = js ''Hola.'' \<rparr>)),
              Settled (Resolved (Some \<lparr> index = 1, audioFile = js ''b.wav'',
                                         sentence = js ''Adios.'' \<rparr>))] 2 \<rparr>"
  by (simp add: out_of_order_def turn_defs show_nat_digit)

lemma both_started_world:
  "activeConversions (wrun both_started world0) s1 = Some (
         \<lparr> conv_id = s1, cancelled = False, processes = [p1, p2], startTime = 0,
           totalSentences = 2, progress = None, lastUpdate = None, completed = False,
           result = None, completedAt = None, error = None, failed = False,
           cancelledAt = None \<rparr>)
     \<and> backgrounds (wrun both_started world0) s1 = Some (
         \<lparr> validSentences = [js ''Hola.'', js ''Adios.''], sentences_length = 2,
           modelName = js ''m'',
           phase = Synthesis [Spawned (js ''a.wav''), Spawned (js ''b.wav'')] 0 \<rparr>)"
  by (simp add: both_started_def turn_defs)

lemma middle_fails_world:
  "activeConversions (wrun middle_fails world0) s1 = Some (
         \<lparr> conv_id = s1, cancelled = False, processes = [p1, p2, p3], startTime = 0,
           totalSentences = 3,
           progress = Some \<lparr> p_completed = 2, p_total = 3, p_percentage = Num 67,
                             p_currentSentence = Some 1 \<rparr>,
           lastUpdate = Some 20, completed = False, result = None, completedAt = None,
           error = None, failed = False, cancelledAt = None \<rparr>)
     \<and> backgrounds (wrun middle_fails world0) s1 = Some (
         \<lparr> validSentences = [js ''Hola.'', js ''Bien.'', js ''Adios.''], sentences_length = 3,
           modelName = js ''m'',
           phase = Synthesis
             [Settled (Resolved (Some \<lparr> index = 0, audioFile = js ''a.wav'',
                                         sentence = js ''Hola.'' \<rparr>)),
              Settled (Rejected (Error (js ''Piper failed with code 1: ''))),
              Settled (Resolved (Some \<lparr> index = 2, audioFile = js ''c.wav'',
                                         sentence = js ''Adios.'' \<rparr>))] 2 \<rparr>)"
  by (simp add: middle_fails_def turn_defs p3_def show_nat_digit percentage_1_3 percentage_2_3)

lemma one_failed_world:
  "activeConversions (wrun one_failed world0) s1 = Some (
         \<lparr> conv_id = s1, cancelled = False, processes = [p1], startTime = 0,
           totalSentences = 1, progress = None, lastUpdate = None, completed = False,
           result = None, completedAt = None, error = None, failed = False,
           cancelledAt = None \<rparr>)
     \<and> backgrounds (wrun one_failed world0) s1 = Some (
         \<lparr> validSentences = [js ''Hola.''], sentences_length = 1, modelName = js ''m'',
           phase = Synthesis
             [Settled (Rejected (Error (js ''Piper failed with code 1: '')))] 0 \<rparr>)"
  by (simp add: one_failed_def turn_defs show_nat_digit)

lemma out_of_order_assembling:
  "map_option phase (backgrounds (wstep (AllSettled s1 (js ''f.wav'') 30)
        (wrun out_of_order world0)) s1)
     = Some (Concat [js ''a.wav'', js ''b.wav''] (js ''f.wav''))"
  by (simp add: out_of_order_def turn_defs show_nat_digit)

lemma one_fails_converting:
  "map_option phase (backgrounds (wstep (AllSettled s1 (js ''f.wav'') 30)
        (wrun one_fails world0)) s1) = Some (Mp3 (js ''b.wav''))"
  by (simp add: one_fails_def turn_defs show_nat_digit)

text \<open>
  C1, as stated: if a sentence task fails with a non-cancellation error, the session ends
  Failed with that failure's message and the outputs of the tasks that succeeded are
  discarded. This fails: of two sentences the first task's process exits with code 1
  while the session is not cancelled, so its promise is rejected with the Piper message;
  the second succeeds, and the session ends completed, with a result and no error.
\<close>

theorem failed_task_session_completes:
  "map_option cancelled (activeConversions (wrun one_fails world0) s1) = Some False
   \<and> map_option phase (backgrounds (wrun one_fails world0) s1) =
       Some (Synthesis
         [Settled (Rejected (Error (js ''Piper failed with code 1: ''))),
          Settled (Resolved (Some \<lparr> index = 1, audioFile = js ''b.wav'',
                                     sentence = js ''Adios.'' \<rparr>))] 1)
   \<and> map_option completed (activeConversions (wrun (one_fails @ then_assembled) world0) s1)
       = Some True
   \<and> map_option failed (activeConversions (wrun (one_fails @ then_assembled) world0) s1)
       = Some False
   \<and> map_option error (activeConversions (wrun (one_fails @ then_assembled) world0) s1)
       = Some None
   \<and> map_option result (activeConversions (wrun (one_fails @ then_assembled) world0) s1)
       = Some (Some \<lparr> audio = js ''data:audio/mpeg;base64,QUJD'', model = js ''m'',
                       sentenceCount = 2 \<rparr>)"
  by (simp add: one_fails_world one_fails_assembled)

lemma length_sortedResults: "length (sortedResults rs) = length (successfulResults rs)"
  by (simp add: sortedResults_def)

lemma collect_Inr:
  "generateAudioParallel_collect rs reg cid = Inr fs \<Longrightarrow> fs = map audioFile (sortedResults rs)"
  by (simp add: generateAudioParallel_collect_def split: if_splits)

lemma after_synthesis_Concat:
  "snd (after_synthesis cid col p now reg) = Concat files path \<Longrightarrow> col = Inr files \<and> path = p"
  by (cases col) (auto simp: after_synthesis_def split: if_splits)

lemma after_synthesis_Mp3:
  "snd (after_synthesis cid col p now reg) = Mp3 f \<Longrightarrow> col = Inr [f]"
proof (cases col)
  case (Inl e)
  assume "snd (after_synthesis cid col p now reg) = Mp3 f"
  with Inl show ?thesis by (simp add: after_synthesis_def)
next
  case (Inr fs)
  assume "snd (after_synthesis cid col p now reg) = Mp3 f"
  with Inr have "length fs = 1" and "f = fs ! 0"
    by (auto simp: after_synthesis_def split: if_splits)
  then have "fs = [f]" by (cases fs) simp_all
  with Inr show ?thesis by simp
qed

lemma piper_message_not_cancelled:
  "js ''Piper failed with code '' @ xs \<noteq> cancelled_message"
  by (simp add: js_def cancelled_message_def)

text \<open>
  C1, amended. A task whose process ends with another code than 0 while the session is
  not cancelled has its own promise rejected, with the Piper message; the turn changes
  nothing else: not the registry, not the other tasks, not the count of completed tasks.
  When all task promises of a session that is not cancelled have settled, the rejected
  ones are dropped. If no task succeeded the session fails, with the message
  \<open>No sentences were processed successfully\<close>; if one did, the session is left as it
  is and the files of the tasks that succeeded are handed on in index order: the list of
  them to \<open>concatenateAudio\<close>, or the single one to \<open>convertToMp3\<close>.
\<close>

theorem failed_tasks_are_dropped:
  "(backgrounds w cid = Some b \<and> phase b = Synthesis tasks n
      \<and> i < length tasks \<and> tasks ! i = Spawned outputFile
      \<and> code \<noteq> Some 0 \<and> \<not> is_cancelled (activeConversions w) cid
    \<longrightarrow> wstep (TaskClose cid i code stderr now) w =
          set_phase cid b
            (Synthesis
               (tasks[i := Settled (Rejected (Error
                  (js ''Piper failed with code '' @ show_code code @ js '': '' @ stderr)))])
               n) w)
   \<and> (backgrounds w cid = Some b \<and> phase b = Synthesis tasks n \<and> list_all settled tasks
      \<and> activeConversions w cid = Some c \<and> \<not> cancelled c
    \<longrightarrow> (successfulResults (map settlement_of tasks) = [] \<longrightarrow>
            activeConversions (wstep (AllSettled cid p now) w) cid =
              Some (c\<lparr> error := Some (js ''No sentences were processed successfully''),
                       failed := True \<rparr>)
            \<and> map_option phase (backgrounds (wstep (AllSettled cid p now) w) cid)
                = Some Finished)
       \<and> (successfulResults (map settlement_of tasks) \<noteq> [] \<longrightarrow>
            generateAudioParallel_collect (map settlement_of tasks) (activeConversions w) cid
              = Inr (map audioFile (sortedResults (map settlement_of tasks)))
            \<and> activeConversions (wstep (AllSettled cid p now) w) cid = Some c
            \<and> map_option phase (backgrounds (wstep (AllSettled cid p now) w) cid)
                = Some (if length (successfulResults (map settlement_of tasks)) = 1
                        then Mp3 (audioFile (hd (sortedResults (map settlement_of tasks))))
                        else Concat (map audioFile (sortedResults (map settlement_of tasks)))
                               p)))"
proof -
  let ?rs = "map settlement_of tasks"
  let ?msg = "js ''Piper failed with code '' @ show_code code @ js '': '' @ stderr"
  have first: "wstep (TaskClose cid i code stderr now) w =
      set_phase cid b (Synthesis (tasks[i := Settled (Rejected (Error ?msg))]) n) w"
    if h: "backgrounds w cid = Some b \<and> phase b = Synthesis tasks n
      \<and> i < length tasks \<and> tasks ! i = Spawned outputFile
      \<and> code \<noteq> Some 0 \<and> \<not> is_cancelled (activeConversions w) cid"
  proof -
    from h have g: "generateAudio_close code stderr outputFile (activeConversions w) cid
        = Inl (Error ?msg)"
      by (simp add: generateAudio_close_def)
    have t: "task_finish cid i (validSentences b) n (Inl (Error ?msg)) now (activeConversions w)
        = (activeConversions w, n, Threw (Error ?msg))"
      by (simp add: task_finish_def)
    have s: "settle (Threw (Error ?msg)) = (Rejected (Error ?msg) :: sentenceResult settlement)"
      using piper_message_not_cancelled [of "show_code code @ js '': '' @ stderr"]
      by (simp add: settle_def)
    have w: "w\<lparr> activeConversions := activeConversions w \<rparr> = w" by simp
    from h show ?thesis by (simp add: g t s w)
  qed
  have second: "(successfulResults ?rs = [] \<longrightarrow>
            activeConversions (wstep (AllSettled cid p now) w) cid =
              Some (c\<lparr> error := Some (js ''No sentences were processed successfully''),
                       failed := True \<rparr>)
            \<and> map_option phase (backgrounds (wstep (AllSettled cid p now) w) cid)
                = Some Finished)
       \<and> (successfulResults ?rs \<noteq> [] \<longrightarrow>
            generateAudioParallel_collect ?rs (activeConversions w) cid
              = Inr (map audioFile (sortedResults ?rs))
            \<and> activeConversions (wstep (AllSettled cid p now) w) cid = Some c
            \<and> map_option phase (backgrounds (wstep (AllSettled cid p now) w) cid)
                = Some (if length (successfulResults ?rs) = 1
                        then Mp3 (audioFile (hd (sortedResults ?rs)))
                        else Concat (map audioFile (sortedResults ?rs)) p))"
    if h: "backgrounds w cid = Some b \<and> phase b = Synthesis tasks n \<and> list_all settled tasks
      \<and> activeConversions w cid = Some c \<and> \<not> cancelled c"
  proof -
    have nc: "\<not> is_cancelled (activeConversions w) cid"
      "\<not> gone_or_cancelled (activeConversions w) cid"
      using h by (simp_all add: is_cancelled_def gone_or_cancelled_def)
    have msg: "js ''No sentences were processed successfully'' \<noteq> cancelled_message"
      by (simp add: js_def cancelled_message_def)
    have step: "wstep (AllSettled cid p now) w =
        set_phase cid b (snd (after_synthesis cid
            (generateAudioParallel_collect ?rs (activeConversions w) cid) p now
            (activeConversions w)))
          (w\<lparr> activeConversions := fst (after_synthesis cid
            (generateAudioParallel_collect ?rs (activeConversions w) cid) p now
            (activeConversions w)) \<rparr>)"
      using h by (simp add: case_prod_beta)
    have none: "successfulResults ?rs = [] \<Longrightarrow>
        after_synthesis cid (generateAudioParallel_collect ?rs (activeConversions w) cid) p now
          (activeConversions w) =
        ((activeConversions w)(cid \<mapsto>
            c\<lparr> error := Some (js ''No sentences were processed successfully''),
               failed := True \<rparr>), Finished)"
      using nc h msg
      by (simp add: generateAudioParallel_collect_def after_synthesis_def catch_block_def)
    have some: "successfulResults ?rs \<noteq> [] \<Longrightarrow>
        generateAudioParallel_collect ?rs (activeConversions w) cid
          = Inr (map audioFile (sortedResults ?rs))"
      using nc by (simp add: generateAudioParallel_collect_def)
    have one: "length (successfulResults ?rs) = 1 \<Longrightarrow>
        map audioFile (sortedResults ?rs) ! 0 = audioFile (hd (sortedResults ?rs))"
      using length_sortedResults [of ?rs] by (cases "sortedResults ?rs") simp_all
    have some': "successfulResults ?rs \<noteq> [] \<Longrightarrow>
        after_synthesis cid (Inr (map audioFile (sortedResults ?rs))) p now (activeConversions w) =
        (activeConversions w,
         (if length (successfulResults ?rs) = 1 then Mp3 (audioFile (hd (sortedResults ?rs)))
          else Concat (map audioFile (sortedResults ?rs)) p))"
      using nc one by (simp add: after_synthesis_def length_sortedResults)
    show ?thesis
    proof (cases "successfulResults ?rs = []")
      case True
      then show ?thesis unfolding step none [OF True] by (simp add: set_phase_def)
    next
      case False
      then show ?thesis unfolding step some [OF False] some' [OF False]
        using h by (simp add: set_phase_def)
    qed
  qed
  from first second show ?thesis by blast
qed

theorem failed_tasks_are_dropped_witness:
  "\<not> is_cancelled (activeConversions (wrun both_started world0)) s1
   \<and> wstep (TaskClose s1 0 (Some 1) [] 10) (wrun both_started world0) =
       set_phase s1
         \<lparr> validSentences = [js ''Hola.'', js ''Adios.''], sentences_length = 2,
           modelName = js ''m'',
           phase = Synthesis [Spawned (js ''a.wav''), Spawned (js ''b.wav'')] 0 \<rparr>
         (Synthesis [Settled (Rejected (Error (js ''Piper failed with code 1: ''))),
                     Spawned (js ''b.wav'')] 0)
         (wrun both_started world0)
   \<and> map_option cancelled (activeConversions (wrun one_fails world0) s1) = Some False
   \<and> map_option failed (activeConversions (wstep (AllSettled s1 (js ''f.wav'') 30)
         (wrun one_fails world0)) s1) = Some False
   \<and> map_option phase (backgrounds (wstep (AllSettled s1 (js ''f.wav'') 30)
         (wrun one_fails world0)) s1) = Some (Mp3 (js ''b.wav''))
   \<and> map_option cancelled (activeConversions (wrun middle_fails world0) s1) = Some False
   \<and> map_option failed (activeConversions (wstep (AllSettled s1 (js ''f.wav'') 30)
         (wrun middle_fails world0)) s1) = Some False
   \<and> map_option phase (backgrounds (wstep (AllSettled s1 (js ''f.wav'') 30)
         (wrun middle_fails world0)) s1)
       = Some (Concat [js ''a.wav'', js ''c.wav''] (js ''f.wav''))
   \<and> map_option cancelled (activeConversions (wrun one_failed world0) s1) = Some False
   \<and> map_option error (activeConversions (wstep (AllSettled s1 (js ''f.wav'') 30)
         (wrun one_failed world0)) s1)
       = Some (Some (js ''No sentences were processed successfully''))
   \<and> map_option phase (backgrounds (wstep (AllSettled s1 (js ''f.wav'') 30)
         (wrun one_failed world0)) s1) = Some Finished"
proof -
  let ?piper = "Settled (Rejected (Error (js ''Piper failed with code 1: '')))"
  let ?ra = "\<lparr> index = 0, audioFile = js ''a.wav'', sentence = js ''Hola.'' \<rparr>"
  let ?rb = "\<lparr> index = 1, audioFile = js ''b.wav'', sentence = js ''Adios.'' \<rparr>"
  let ?rc = "\<lparr> index = 2, audioFile = js ''c.wav'', sentence = js ''Adios.'' \<rparr>"
  let ?world0 = "wrun both_started world0"
  let ?tasks0 = "[Spawned (js ''a.wav''), Spawned (js ''b.wav'')]"
  let ?bg0 = "\<lparr> validSentences = [js ''Hola.'', js ''Adios.''], sentences_length = 2,
       modelName = js ''m'', phase = Synthesis ?tasks0 0 \<rparr>"
  have code: "js ''Piper failed with code '' @ show_code (Some 1) @ js '': ''
      = js ''Piper failed with code 1: ''"
    by (simp add: show_code_def show_int_def show_nat_digit js_def)
  have n0: "\<not> is_cancelled (activeConversions ?world0) s1"
    using both_started_world by (simp add: is_cancelled_def)
  have h0: "backgrounds ?world0 s1 = Some ?bg0 \<and> phase ?bg0 = Synthesis ?tasks0 0
      \<and> 0 < length ?tasks0 \<and> ?tasks0 ! 0 = Spawned (js ''a.wav'')
      \<and> Some 1 \<noteq> Some (0::int) \<and> \<not> is_cancelled (activeConversions ?world0) s1"
    using both_started_world n0 by simp
  have s0: "wstep (TaskClose s1 0 (Some 1) [] 10) ?world0 =
      set_phase s1 ?bg0 (Synthesis [?piper, Spawned (js ''b.wav'')] 0) ?world0"
    using failed_tasks_are_dropped [where w = ?world0 and cid = s1 and b = ?bg0
          and tasks = ?tasks0 and n = 0 and i = 0 and outputFile = "js ''a.wav''"
          and code = "Some 1" and stderr = "[]" and now = 10,
        THEN conjunct1, THEN mp, OF h0]
    by (simp add: code del: wstep.simps)
  let ?world1 = "wrun one_fails world0"
  let ?tasks1 = "[?piper, Settled (Resolved (Some ?rb))]"
  let ?bg1 = "\<lparr> validSentences = [js ''Hola.'', js ''Adios.''], sentences_length = 2,
       modelName = js ''m'', phase = Synthesis ?tasks1 1 \<rparr>"
  let ?conv1 = "\<lparr> conv_id = s1, cancelled = False, processes = [p1, p2], startTime = 0,
       totalSentences = 2,
       progress = Some \<lparr> p_completed = 1, p_total = 2, p_percentage = Num 50,
                         p_currentSentence = Some 2 \<rparr>,
       lastUpdate = Some 20, completed = False, result = None, completedAt = None,
       error = None, failed = False, cancelledAt = None \<rparr>"
  have c1: "map_option cancelled (activeConversions ?world1 s1) = Some False"
    using one_fails_world by simp
  have h1: "backgrounds ?world1 s1 = Some ?bg1 \<and> phase ?bg1 = Synthesis ?tasks1 1 \<and> list_all settled ?tasks1
      \<and> activeConversions ?world1 s1 = Some ?conv1 \<and> \<not> cancelled ?conv1"
    using one_fails_world by (simp add: settled_def)
  have s1: "map_option failed (activeConversions (wstep (AllSettled s1 (js ''f.wav'') 30) ?world1) s1)
        = Some False
      \<and> map_option phase (backgrounds (wstep (AllSettled s1 (js ''f.wav'') 30) ?world1) s1)
        = Some (Mp3 (js ''b.wav''))"
    using failed_tasks_are_dropped [where w = ?world1 and cid = s1 and b = ?bg1
          and tasks = ?tasks1 and n = 1 and c = ?conv1 and p = "js ''f.wav''" and now = 30,
        THEN conjunct2, THEN mp, OF h1]
    by (simp add: settlement_of_def sortedResults_def del: wstep.simps)
  let ?world2 = "wrun middle_fails world0"
  let ?tasks2 = "[Settled (Resolved (Some ?ra)), ?piper, Settled (Resolved (Some ?rc))]"
  let ?bg2 = "\<lparr> validSentences = [js ''Hola.'', js ''Bien.'', js ''Adios.''],
       sentences_length = 3, modelName = js ''m'', phase = Synthesis ?tasks2 2 \<rparr>"
  let ?conv2 = "\<lparr> conv_id = s1, cancelled = False, processes = [p1, p2, p3], startTime = 0,
       totalSentences = 3,
       progress = Some \<lparr> p_completed = 2, p_total = 3, p_percentage = Num 67,
                         p_currentSentence = Some 1 \<rparr>,
       lastUpdate = Some 20, completed = False, result = None, completedAt = None,
       error = None, failed = False, cancelledAt = None \<rparr>"
  have c2: "map_option cancelled (activeConversions ?world2 s1) = Some False"
    using middle_fails_world by simp
  have h2: "backgrounds ?world2 s1 = Some ?bg2 \<and> phase ?bg2 = Synthesis ?tasks2 2 \<and> list_all settled ?tasks2
      \<and> activeConversions ?world2 s1 = Some ?conv2 \<and> \<not> cancelled ?conv2"
    using middle_fails_world by (simp add: settled_def)
  have s2: "map_option failed (activeConversions (wstep (AllSettled s1 (js ''f.wav'') 30) ?world2) s1)
        = Some False
      \<and> map_option phase (backgrounds (wstep (AllSettled s1 (js ''f.wav'') 30) ?world2) s1)
        = Some (Concat [js ''a.wav'', js ''c.wav''] (js ''f.wav''))"
    using failed_tasks_are_dropped [where w = ?world2 and cid = s1 and b = ?bg2
          and tasks = ?tasks2 and n = 2 and c = ?conv2 and p = "js ''f.wav''" and now = 30,
        THEN conjunct2, THEN mp, OF h2]
    by (simp add: settlement_of_def sortedResults_def del: wstep.simps)
  let ?world3 = "wrun one_failed world0"
  let ?tasks3 = "[?piper]"
  let ?bg3 = "\<lparr> validSentences = [js ''Hola.''], sentences_length = 1, modelName = js ''m'',
       phase = Synthesis ?tasks3 0 \<rparr>"
  let ?conv3 = "\<lparr> conv_id = s1, cancelled = False, processes = [p1], startTime = 0,
       totalSentences = 1, progress = None, lastUpdate = None, completed = False,
       result = None, completedAt = None, error = None, failed = False,
       cancelledAt = None \<rparr>"
  have c3: "map_option cancelled (activeConversions ?world3 s1) = Some False"
    using one_failed_world by simp
  have h3: "backgrounds ?world3 s1 = Some ?bg3 \<and> phase ?bg3 = Synthesis ?tasks3 0 \<and> list_all settled ?tasks3
      \<and> activeConversions ?world3 s1 = Some ?conv3 \<and> \<not> cancelled ?conv3"
    using one_failed_world by (simp add: settled_def)
  have s3: "map_option error (activeConversions (wstep (AllSettled s1 (js ''f.wav'') 30) ?world3) s1)
        = Some (Some (js ''No sentences were processed successfully''))
      \<and> map_option phase (backgrounds (wstep (AllSettled s1 (js ''f.wav'') 30) ?world3) s1)
        = Some Finished"
    using failed_tasks_are_dropped [where w = ?world3 and cid = s1 and b = ?bg3
          and tasks = ?tasks3 and n = 0 and c = ?conv3 and p = "js ''f.wav''" and now = 30,
        THEN conjunct2, THEN mp, OF h3]
    by (simp add: settlement_of_def del: wstep.simps)
  from n0 s0 c1 s1 c2 s2 c3 s3 show ?thesis by blast
qed

lemma set_phase_at:
  "backgrounds (set_phase k b ph w) cid
     = (if cid = k then Some (b\<lparr> phase := ph \<rparr>) else backgrounds w cid)"
  by (simp add: set_phase_def)

text \<open>A session comes to stand at the call of \<open>concatenateAudio\<close> only in the turn in
  which all its task promises have settled.\<close>

lemma Concat_origin:
  assumes "map_option phase (backgrounds (wstep e w) cid) = Some (Concat files path)"
  shows "map_option phase (backgrounds w cid) = Some (Concat files path)
       \<or> (\<exists>b tasks n p now. backgrounds w cid = Some b \<and> phase b = Synthesis tasks n
             \<and> list_all settled tasks \<and> e = AllSettled cid p now)"
proof (cases e)
  case (Convert k ss m now)
  with assms show ?thesis by (auto split: if_splits)
next
  case (TaskStart k i pp f)
  with assms show ?thesis
    by (auto simp: set_phase_at case_prod_beta split: option.splits phase.splits if_splits)
next
  case (TaskClose k i code err now)
  with assms show ?thesis
    by (auto simp: set_phase_at case_prod_beta
        split: option.splits phase.splits if_splits task_state.splits)
next
  case (TaskError k i err)
  with assms show ?thesis
    by (auto simp: set_phase_at split: option.splits phase.splits if_splits task_state.splits)
next
  case (AllSettled k p now)
  with assms show ?thesis
    by (auto simp: set_phase_at case_prod_beta split: option.splits phase.splits if_splits)
next
  case (ConcatDone k fe now)
  with assms show ?thesis
    by (auto simp: set_phase_at case_prod_beta after_concat_def
        split: option.splits phase.splits if_splits sum.splits)
next
  case (Mp3Done k fe enc now)
  with assms show ?thesis
    by (auto simp: set_phase_at split: option.splits phase.splits if_splits)
next
  case (CancelRequest k now)
  with assms show ?thesis by simp
next
  case (Sweep now)
  with assms show ?thesis by simp
qed

text \<open>
  C5: in every reachable state, whatever the order in which the tasks ended, when all
  task promises have settled the list of audio files handed to \<open>concatenateAudio\<close> (and
  the single file handed to \<open>convertToMp3\<close> when there is only one) is the list that
  \<open>generateAudioParallel\<close> returns: the files of the successful tasks, each once, in
  strictly increasing order of the sentence index, every result standing for the task of
  its index. No other turn puts a session at the call of \<open>concatenateAudio\<close>.
\<close>

theorem audio_files_in_index_order:
  assumes "backgrounds (wrun evs world0) cid = Some b" and "phase b = Synthesis tasks n"
  shows "(map_option phase (backgrounds (wstep (AllSettled cid p now) (wrun evs world0)) cid)
            = Some (Concat files path)
          \<longrightarrow> files = map audioFile (sortedResults (map settlement_of tasks)) \<and> path = p)
       \<and> (map_option phase (backgrounds (wstep (AllSettled cid p now) (wrun evs world0)) cid)
            = Some (Mp3 f)
          \<longrightarrow> [f] = map audioFile (sortedResults (map settlement_of tasks)))
       \<and> (generateAudioParallel_collect (map settlement_of tasks)
             (activeConversions (wrun evs world0)) cid = Inr audioFiles
          \<longrightarrow> audioFiles = map audioFile (sortedResults (map settlement_of tasks)))
       \<and> sorted_wrt (<) (map index (sortedResults (map settlement_of tasks)))
       \<and> (\<forall>r\<in>set (sortedResults (map settlement_of tasks)).
             index r < length tasks \<and> tasks ! index r = Settled (Resolved (Some r)))
       \<and> (\<forall>i<length tasks. \<forall>r. tasks ! i = Settled (Resolved (Some r))
             \<longrightarrow> r \<in> set (sortedResults (map settlement_of tasks)))
       \<and> (map_option phase (backgrounds (wstep e w) k) = Some (Concat files' path')
          \<longrightarrow> map_option phase (backgrounds w k) = Some (Concat files' path')
              \<or> (\<exists>b' tasks' n' p' now'. backgrounds w k = Some b'
                    \<and> phase b' = Synthesis tasks' n' \<and> list_all settled tasks'
                    \<and> e = AllSettled k p' now'))"
proof -
  let ?rs = "map settlement_of tasks"
  let ?w = "wrun evs world0"
  let ?a = "after_synthesis cid (generateAudioParallel_collect ?rs (activeConversions ?w) cid)
      p now (activeConversions ?w)"
  have inv: "\<forall>i<length tasks. \<forall>r. tasks ! i = Settled (Resolved (Some r)) \<longrightarrow> index r = i"
    using tasks_reachable [of evs cid] assms(1,2) unfolding tasks_inv_def by blast
  have conv: "\<And>j r. j < length tasks \<Longrightarrow> ?rs ! j = Resolved (Some r) \<longleftrightarrow> tasks ! j = Settled (Resolved (Some r))"
    by (auto simp: settlement_of_def split: task_state.splits)
  have pos: "\<forall>j<length ?rs. \<forall>r. ?rs ! j = Resolved (Some r) \<longrightarrow> index r = 0 + j"
    using inv conv by simp
  have off: "sorted_wrt (<) (map index (successfulResults ?rs))
       \<and> (\<forall>r\<in>set (successfulResults ?rs). 0 \<le> index r \<and> index r < 0 + length ?rs
             \<and> ?rs ! (index r - 0) = Resolved (Some r))
       \<and> (\<forall>j<length ?rs. \<forall>r. ?rs ! j = Resolved (Some r) \<longrightarrow> r \<in> set (successfulResults ?rs))"
    using pos by (rule successfulResults_offset)
  have s: "sorted_wrt (<) (map index (successfulResults ?rs))"
    using off by blast
  have m: "\<forall>r\<in>set (successfulResults ?rs). index r < length tasks \<and> ?rs ! index r = Resolved (Some r)"
  proof
    fix r assume "r \<in> set (successfulResults ?rs)"
    with off have "index r < 0 + length ?rs \<and> ?rs ! (index r - 0) = Resolved (Some r)" by blast
    then show "index r < length tasks \<and> ?rs ! index r = Resolved (Some r)" by simp
  qed
  have a: "\<forall>j<length tasks. \<forall>r. ?rs ! j = Resolved (Some r) \<longrightarrow> r \<in> set (successfulResults ?rs)"
  proof (intro allI impI)
    fix j r assume "j < length tasks" "?rs ! j = Resolved (Some r)"
    then have "j < length ?rs" "?rs ! j = Resolved (Some r)" by simp_all
    with off show "r \<in> set (successfulResults ?rs)" by blast
  qed
  have eq: "sortedResults ?rs = successfulResults ?rs"
    using s by (rule sortedResults_sorted)
  have ph: "map_option phase (backgrounds (wstep (AllSettled cid p now) ?w) cid)
      = Some (if list_all settled tasks then snd ?a else Synthesis tasks n)"
    using assms by (simp add: case_prod_beta set_phase_def)
  have h1: "files = map audioFile (sortedResults ?rs) \<and> path = p"
    if "map_option phase (backgrounds (wstep (AllSettled cid p now) ?w) cid)
          = Some (Concat files path)"
  proof -
    from that ph have "snd ?a = Concat files path" by (simp split: if_splits)
    from after_synthesis_Concat [OF this]
    have "generateAudioParallel_collect ?rs (activeConversions ?w) cid = Inr files" and "path = p"
      by simp_all
    with collect_Inr [of ?rs "activeConversions ?w" cid files] show ?thesis by simp
  qed
  have h2: "[f] = map audioFile (sortedResults ?rs)"
    if "map_option phase (backgrounds (wstep (AllSettled cid p now) ?w) cid) = Some (Mp3 f)"
  proof -
    from that ph have "snd ?a = Mp3 f" by (simp split: if_splits)
    from after_synthesis_Mp3 [OF this]
    have "generateAudioParallel_collect ?rs (activeConversions ?w) cid = Inr [f]" .
    from collect_Inr [OF this] show ?thesis .
  qed
  have h3: "audioFiles = map audioFile (sortedResults ?rs)"
    if "generateAudioParallel_collect ?rs (activeConversions ?w) cid = Inr audioFiles"
    using that by (rule collect_Inr)
  have m': "\<forall>r\<in>set (successfulResults ?rs). index r < length tasks \<and> tasks ! index r = Settled (Resolved (Some r))"
    using m conv by blast
  have a': "\<forall>i<length tasks. \<forall>r. tasks ! i = Settled (Resolved (Some r)) \<longrightarrow> r \<in> set (successfulResults ?rs)"
    using a conv by blast
  have o: "map_option phase (backgrounds (wstep e w) k) = Some (Concat files' path')
      \<longrightarrow> map_option phase (backgrounds w k) = Some (Concat files' path')
          \<or> (\<exists>b' tasks' n' p' now'. backgrounds w k = Some b'
                \<and> phase b' = Synthesis tasks' n' \<and> list_all settled tasks'
                \<and> e = AllSettled k p' now')"
    using Concat_origin [of e w k files' path'] by blast
  have five: "(map_option phase (backgrounds (wstep (AllSettled cid p now) ?w) cid)
            = Some (Concat files path)
          \<longrightarrow> files = map audioFile (sortedResults ?rs) \<and> path = p)
       \<and> (map_option phase (backgrounds (wstep (AllSettled cid p now) ?w) cid) = Some (Mp3 f)
          \<longrightarrow> [f] = map audioFile (sortedResults ?rs))
       \<and> (generateAudioParallel_collect ?rs (activeConversions ?w) cid = Inr audioFiles
          \<longrightarrow> audioFiles = map audioFile (sortedResults ?rs))
       \<and> sorted_wrt (<) (map index (sortedResults ?rs))
       \<and> (\<forall>r\<in>set (sortedResults ?rs).
             index r < length tasks \<and> tasks ! index r = Settled (Resolved (Some r)))
       \<and> (\<forall>i<length tasks. \<forall>r. tasks ! i = Settled (Resolved (Some r))
             \<longrightarrow> r \<in> set (sortedResults ?rs))"
    using h1 h2 h3 s m' a' unfolding eq by blast
  from five o show ?thesis by blast
qed

theorem audio_files_in_index_order_witness:
  "map_option phase (backgrounds (wrun out_of_order world0) s1)
     = Some (Synthesis
         [Settled (Resolved (Some \<lparr> index = 0, audioFile = js ''a.wav'', sentence = js ''Hola.'' \<rparr>)),
          Settled (Resolved (Some \<lparr> index = 1, audioFile = js ''b.wav'', sentence = js ''Adios.'' \<rparr>))]
         2)
   \<and> map_option phase (backgrounds (wstep (AllSettled s1 (js ''f.wav'') 30)
        (wrun out_of_order world0)) s1)
     = Some (Concat [js ''a.wav'', js ''b.wav''] (js ''f.wav''))
   \<and> map audioFile (sortedResults (map settlement_of
        [Settled (Resolved (Some \<lparr> index = 0, audioFile = js ''a.wav'', sentence = js ''Hola.'' \<rparr>)),
         Settled (Resolved (Some \<lparr> index = 1, audioFile = js ''b.wav'', sentence = js ''Adios.'' \<rparr>))]))
     = [js ''a.wav'', js ''b.wav'']
   \<and> map_option phase (backgrounds (wstep (AllSettled s1 (js ''f.wav'') 30)
        (wrun one_fails world0)) s1)
     = Some (Mp3 (js ''b.wav''))
   \<and> map audioFile (sortedResults (map settlement_of
        [Settled (Rejected (Error (js ''Piper failed with code 1: ''))),
         Settled (Resolved (Some \<lparr> index = 1, audioFile = js ''b.wav'', sentence = js ''Adios.'' \<rparr>))]))
     = [js ''b.wav'']
   \<and> generateAudioParallel_collect
     (map settlement_of
        [Settled (Resolved (Some \<lparr> index = 0, audioFile = js ''a.wav'', sentence = js ''Hola.'' \<rparr>)),
         Settled (Resolved (Some \<lparr> index = 1, audioFile = js ''b.wav'', sentence = js ''Adios.'' \<rparr>))])
     (activeConversions (wrun out_of_order world0)) s1 = Inr [js ''a.wav'', js ''b.wav'']
   \<and> sorted_wrt (<) (map index (sortedResults (map settlement_of
        [Settled (Resolved (Some \<lparr> index = 0, audioFile = js ''a.wav'', sentence = js ''Hola.'' \<rparr>)),
         Settled (Resolved (Some \<lparr> index = 1, audioFile = js ''b.wav'', sentence = js ''Adios.'' \<rparr>))])))
   \<and> (map_option phase (backgrounds (wrun out_of_order world0) s1)
         = Some (Concat [js ''a.wav'', js ''b.wav''] (js ''f.wav''))
        \<or> (\<exists>b tasks n p now. backgrounds (wrun out_of_order world0) s1 = Some b
              \<and> phase b = Synthesis tasks n \<and> list_all settled tasks
              \<and> AllSettled s1 (js ''f.wav'') 30 = AllSettled s1 p now))"
proof -
  let ?tasks = "[Settled (Resolved (Some \<lparr> index = 0, audioFile = js ''a.wav'', sentence = js ''Hola.'' \<rparr>)),
         Settled (Resolved (Some \<lparr> index = 1, audioFile = js ''b.wav'', sentence = js ''Adios.'' \<rparr>))]"
  let ?tasks' = "[Settled (Rejected (Error (js ''Piper failed with code 1: ''))),
         Settled (Resolved (Some \<lparr> index = 1, audioFile = js ''b.wav'', sentence = js ''Adios.'' \<rparr>))]"
  have p0: "map_option phase (backgrounds (wrun out_of_order world0) s1) = Some (Synthesis ?tasks 2)"
    by (simp add: out_of_order_background)
  have p1: "map_option phase (backgrounds (wstep (AllSettled s1 (js ''f.wav'') 30)
        (wrun out_of_order world0)) s1) = Some (Concat [js ''a.wav'', js ''b.wav''] (js ''f.wav''))"
    by (rule out_of_order_assembling)
  have g: "generateAudioParallel_collect (map settlement_of ?tasks)
     (activeConversions (wrun out_of_order world0)) s1 = Inr [js ''a.wav'', js ''b.wav'']"
    by (simp add: out_of_order_def turn_defs)
  have ph: "phase \<lparr> validSentences = [js ''Hola.'', js ''Adios.''], sentences_length = 2,
           modelName = js ''m'', phase = Synthesis ?tasks 2 \<rparr> = Synthesis ?tasks 2"
    by simp
  note t1 = audio_files_in_index_order [OF out_of_order_background ph,
      of "js ''f.wav''" 30 "[js ''a.wav'', js ''b.wav'']" "js ''f.wav''" _ "[js ''a.wav'', js ''b.wav'']"]
  have f1: "map audioFile (sortedResults (map settlement_of ?tasks)) = [js ''a.wav'', js ''b.wav'']"
    using t1 p1 by simp
  have s1: "sorted_wrt (<) (map index (sortedResults (map settlement_of ?tasks)))"
    using t1 by blast
  have b2: "backgrounds (wrun one_fails world0) s1 = Some
      \<lparr> validSentences = [js ''Hola.'', js ''Adios.''], sentences_length = 2,
        modelName = js ''m'', phase = Synthesis ?tasks' 1 \<rparr>"
    using one_fails_world by simp
  have ph2: "phase \<lparr> validSentences = [js ''Hola.'', js ''Adios.''], sentences_length = 2,
           modelName = js ''m'', phase = Synthesis ?tasks' 1 \<rparr> = Synthesis ?tasks' 1"
    by simp
  have p2: "map_option phase (backgrounds (wstep (AllSettled s1 (js ''f.wav'') 30)
        (wrun one_fails world0)) s1) = Some (Mp3 (js ''b.wav''))"
    by (rule one_fails_converting)
  have f2: "map audioFile (sortedResults (map settlement_of ?tasks')) = [js ''b.wav'']"
    using audio_files_in_index_order [OF b2 ph2, of "js ''f.wav''" 30 _ _ "js ''b.wav''"] p2
    by simp
  have o: "map_option phase (backgrounds (wrun out_of_order world0) s1)
         = Some (Concat [js ''a.wav'', js ''b.wav''] (js ''f.wav''))
        \<or> (\<exists>b tasks n p now. backgrounds (wrun out_of_order world0) s1 = Some b
              \<and> phase b = Synthesis tasks n \<and> list_all settled tasks
              \<and> AllSettled s1 (js ''f.wav'') 30 = AllSettled s1 p now)"
    using audio_files_in_index_order [OF out_of_order_background ph,
        where e = "AllSettled s1 (js ''f.wav'') 30" and w = "wrun out_of_order world0"
          and k = s1 and files' = "[js ''a.wav'', js ''b.wav'']" and path' = "js ''f.wav''"] p1
    by blast
  from p0 p1 f1 p2 f2 g s1 o show ?thesis by blast
qed

text \<open>
  C6, as stated: cancelling a session in a terminal state (completed, failed or
  cancelled) is refused and changes nothing. This fails for a failed session: the
  request is accepted, the session becomes cancelled and \<open>kill\<close> is called on the
  handle it still holds.
\<close>

theorem cancel_accepted_on_failed_session:
  "map_option failed (activeConversions (wrun all_fail world0) s1) = Some True
   \<and> map_option cancelled (activeConversions (wrun all_fail world0) s1) = Some False
   \<and> fst (cancel_conversion s1 50 (activeConversions (wrun all_fail world0)))
       = CancelAccepted (js ''Conversion cancelled'')
   \<and> map_option cancelled
        (fst (snd (cancel_conversion s1 50 (activeConversions (wrun all_fail world0)))) s1)
       = Some True
   \<and> snd (snd (cancel_conversion s1 50 (activeConversions (wrun all_fail world0)))) = [p1]"
  by (simp add: cancel_conversion_def all_fail_registry p1_def)

text \<open>
  C6, amended: for every completed session the cancel request is refused with
  \<open>Conversion already completed\<close>, the registry (and so the session's state, result
  and error) is unchanged and \<open>kill\<close> is called on no handle.
\<close>

theorem cancel_refused_when_completed:
  assumes "activeConversions w cid = Some c" and "completed c"
  shows "cancel_conversion cid now (activeConversions w)
           = (CancelRefused (js ''Conversion already completed''), activeConversions w, [])
       \<and> wstep (CancelRequest cid now) w = w"
  using assms by (simp add: cancel_conversion_def)

theorem cancel_refused_when_completed_witness:
  "map_option completed (activeConversions (wrun completed_run world0) s1) = Some True
   \<and> cancel_conversion s1 50 (activeConversions (wrun completed_run world0))
       = (CancelRefused (js ''Conversion already completed''),
          activeConversions (wrun completed_run world0), [])
   \<and> wstep (CancelRequest s1 50) (wrun completed_run world0) = wrun completed_run world0"
proof -
  have c: "completed \<lparr> conv_id = s1, cancelled = False, processes = [p1], startTime = 0,
         totalSentences = 1,
         progress = Some \<lparr> p_completed = 1, p_total = 1, p_percentage = Num 100,
                           p_currentSentence = Some 1 \<rparr>,
         lastUpdate = Some 10, completed = True,
         result = Some \<lparr> audio = js ''data:audio/mpeg;base64,QUJD'', model = js ''m'',
                         sentenceCount = 1 \<rparr>,
         completedAt = Some 40, error = None, failed = False, cancelledAt = None \<rparr>"
    by simp
  from cancel_refused_when_completed [OF completed_run_registry c, of 50]
  show ?thesis by (simp add: completed_run_registry)
qed

text \<open>
  C9, as stated: the status of a session in a terminal state has exactly one of result
  and error populated. This fails for a cancelled session, whose status has neither.
\<close>

theorem cancelled_snapshot_has_neither:
  "conversion_status s1 (activeConversions (wrun cancelled_run world0)) =
     Status \<lparr> s_id = s1, s_cancelled = True, s_completed = False, s_failed = False,
              s_progress = \<lparr> p_completed = 0, p_total = 1, p_percentage = Num 0,
                             p_currentSentence = None \<rparr>,
              s_result = None, s_error = None, s_startTime = 0, s_lastUpdate = 0 \<rparr>"
  by (simp add: conversion_status_def cancelled_run_registry)

text \<open>
  C9, amended: in every reachable state the status of a session never has both result and
  error populated, and its three flags are those of the session. A cancelled session is
  never completed, and a completed one never failed. The status of a completed session
  has the result and no error; that of a failed session has no result, and has the stored
  message as its error unless that message is the empty string; that of a cancelled
  session that has not failed has neither, as has that of every session neither completed
  nor failed.
\<close>

theorem snapshot_result_and_error:
  assumes "activeConversions (wrun evs world0) cid = Some c"
    and "conversion_status cid (activeConversions (wrun evs world0)) = Status s"
  shows "\<not> (s_result s \<noteq> None \<and> s_error s \<noteq> None)
       \<and> (completed c \<longrightarrow> s_result s \<noteq> None \<and> s_error s = None)
       \<and> (failed c \<longrightarrow> s_result s = None
             \<and> (\<exists>m. error c = Some m \<and> s_error s = (if m = [] then None else Some m)))
       \<and> (\<not> completed c \<and> \<not> failed c \<longrightarrow> s_result s = None \<and> s_error s = None)
       \<and> (cancelled c \<longrightarrow> \<not> completed c)
       \<and> (cancelled c \<and> \<not> failed c \<longrightarrow> s_result s = None \<and> s_error s = None)
       \<and> \<not> (completed c \<and> failed c)
       \<and> s_cancelled s = cancelled c \<and> s_completed s = completed c \<and> s_failed s = failed c"
proof -
  have ok: "conv_ok c"
    using sess_reachable [of evs cid] assms(1) by (simp add: sess_inv_def)
  have r: "s_result s = result c"
    and e: "s_error s = (case error c of None \<Rightarrow> None | Some m \<Rightarrow> if m = [] then None else Some m)"
    and fl: "s_cancelled s = cancelled c" "s_completed s = completed c" "s_failed s = failed c"
    using assms by (auto simp: conversion_status_def)
  from ok have a: "completed c \<longleftrightarrow> result c \<noteq> None" and b: "failed c \<longleftrightarrow> error c \<noteq> None"
    and d: "\<not> (completed c \<and> failed c)" and k: "completed c \<longrightarrow> \<not> cancelled c"
    unfolding conv_ok_def by blast+
  have x: "result c = None \<or> error c = None" using a b d by blast
  have c1: "\<not> (s_result s \<noteq> None \<and> s_error s \<noteq> None)"
    using x r e by (auto split: option.splits)
  have c2: "completed c \<longrightarrow> s_result s \<noteq> None \<and> s_error s = None"
    using a x r e by (auto split: option.splits)
  have c3: "failed c \<longrightarrow> s_result s = None
      \<and> (\<exists>m. error c = Some m \<and> s_error s = (if m = [] then None else Some m))"
    using b x r e by (auto split: option.splits)
  have c4: "\<not> completed c \<and> \<not> failed c \<longrightarrow> s_result s = None \<and> s_error s = None"
    using a b r e by (auto split: option.splits)
  have c5: "cancelled c \<longrightarrow> \<not> completed c" using k by blast
  have c6: "cancelled c \<and> \<not> failed c \<longrightarrow> s_result s = None \<and> s_error s = None"
    using c4 c5 by blast
  from c1 c2 c3 c4 c5 c6 d fl show ?thesis by blast
qed

theorem snapshot_result_and_error_witness:
  "map_option completed (activeConversions (wrun completed_run world0) s1) = Some True
   \<and> conversion_status s1 (activeConversions (wrun completed_run world0)) =
       Status \<lparr> s_id = s1, s_cancelled = False, s_completed = True, s_failed = False,
              s_progress = \<lparr> p_completed = 1, p_total = 1, p_percentage = Num 100,
                             p_currentSentence = Some 1 \<rparr>,
              s_result = Some \<lparr> audio = js ''data:audio/mpeg;base64,QUJD'', model = js ''m'',
                                sentenceCount = 1 \<rparr>,
              s_error = None, s_startTime = 0, s_lastUpdate = 10 \<rparr>
   \<and> s_result \<lparr> s_id = s1, s_cancelled = False, s_completed = True, s_failed = False,
              s_progress = \<lparr> p_completed = 1, p_total = 1, p_percentage = Num 100,
                             p_currentSentence = Some 1 \<rparr>,
              s_result = Some \<lparr> audio = js ''data:audio/mpeg;base64,QUJD'', model = js ''m'',
                                sentenceCount = 1 \<rparr>,
              s_error = None, s_startTime = 0, s_lastUpdate = 10 \<rparr> \<noteq> None
   \<and> map_option cancelled (activeConversions (wrun cancelled_run world0) s1) = Some True
   \<and> map_option failed (activeConversions (wrun cancelled_run world0) s1) = Some False
   \<and> map_option completed (activeConversions (wrun cancelled_run world0) s1) = Some False
   \<and> conversion_status s1 (activeConversions (wrun cancelled_run world0)) =
       Status \<lparr> s_id = s1, s_cancelled = True, s_completed = False, s_failed = False,
              s_progress = \<lparr> p_completed = 0, p_total = 1, p_percentage = Num 0,
                             p_currentSentence = None \<rparr>,
              s_result = None, s_error = None, s_startTime = 0, s_lastUpdate = 0 \<rparr>
   \<and> map_option failed (activeConversions (wrun all_fail world0) s1) = Some True
   \<and> conversion_status s1 (activeConversions (wrun all_fail world0)) =
       Status \<lparr> s_id = s1, s_cancelled = False, s_completed = False, s_failed = True,
              s_progress = \<lparr> p_completed = 0, p_total = 1, p_percentage = Num 0,
                             p_currentSentence = None \<rparr>,
              s_result = None,
              s_error = Some (js ''No sentences were processed successfully''),
              s_startTime = 0, s_lastUpdate = 0 \<rparr>"
proof -
  have st: "conversion_status s1 (activeConversions (wrun completed_run world0)) =
       Status \<lparr> s_id = s1, s_cancelled = False, s_completed = True, s_failed = False,
              s_progress = \<lparr> p_completed = 1, p_total = 1, p_percentage = Num 100,
                             p_currentSentence = Some 1 \<rparr>,
              s_result = Some \<lparr> audio = js ''data:audio/mpeg;base64,QUJD'', model = js ''m'',
                                sentenceCount = 1 \<rparr>,
              s_error = None, s_startTime = 0, s_lastUpdate = 10 \<rparr>"
    by (simp add: conversion_status_def completed_run_registry)
  have a: "map_option completed (activeConversions (wrun completed_run world0) s1) = Some True
     \<and> s_result \<lparr> s_id = s1, s_cancelled = False, s_completed = True, s_failed = False,
              s_progress = \<lparr> p_completed = 1, p_total = 1, p_percentage = Num 100,
                             p_currentSentence = Some 1 \<rparr>,
              s_result = Some \<lparr> audio = js ''data:audio/mpeg;base64,QUJD'', model = js ''m'',
                                sentenceCount = 1 \<rparr>,
              s_error = None, s_startTime = 0, s_lastUpdate = 10 \<rparr> \<noteq> None"
    using snapshot_result_and_error [OF completed_run_registry st]
    by (simp add: completed_run_registry)
  have st2: "conversion_status s1 (activeConversions (wrun cancelled_run world0)) =
       Status \<lparr> s_id = s1, s_cancelled = True, s_completed = False, s_failed = False,
              s_progress = \<lparr> p_completed = 0, p_total = 1, p_percentage = Num 0,
                             p_currentSentence = None \<rparr>,
              s_result = None, s_error = None, s_startTime = 0, s_lastUpdate = 0 \<rparr>"
    by (simp add: conversion_status_def cancelled_run_registry)
  have b: "map_option cancelled (activeConversions (wrun cancelled_run world0) s1) = Some True
     \<and> map_option failed (activeConversions (wrun cancelled_run world0) s1) = Some False
     \<and> map_option completed (activeConversions (wrun cancelled_run world0) s1) = Some False"
    using snapshot_result_and_error [OF cancelled_run_registry st2]
    by (simp add: cancelled_run_registry)
  have st3: "conversion_status s1 (activeConversions (wrun all_fail world0)) =
       Status \<lparr> s_id = s1, s_cancelled = False, s_completed = False, s_failed = True,
              s_progress = \<lparr> p_completed = 0, p_total = 1, p_percentage = Num 0,
                             p_currentSentence = None \<rparr>,
              s_result = None,
              s_error = Some (js ''No sentences were processed successfully''),
              s_startTime = 0, s_lastUpdate = 0 \<rparr>"
    by (simp add: conversion_status_def all_fail_registry js_def)
  have c: "map_option failed (activeConversions (wrun all_fail world0) s1) = Some True"
    using snapshot_result_and_error [OF all_fail_registry st3]
    by (simp add: all_fail_registry)
  from st a st2 b st3 c show ?thesis by blast
qed

lemma cleanup_keeps: 
  "reg cid = Some c \<Longrightarrow> \<not> completed c \<Longrightarrow> \<not> failed c \<Longrightarrow> \<not> cancelled c \<Longrightarrow>
   cleanup now reg cid = Some c"
  by (simp add: cleanup_def)

text \<open>
  C10: a session that is neither completed, failed nor cancelled survives every cleanup
  sweep, at whatever times the sweeps run, and its status can still be polled.
\<close>

theorem cleanup_keeps_running_sessions:
  assumes "reg cid = Some c" and "\<not> completed c" and "\<not> failed c" and "\<not> cancelled c"
  shows "fold cleanup nows reg cid = Some c
       \<and> conversion_status cid (fold cleanup nows reg) = conversion_status cid reg
       \<and> conversion_status cid (fold cleanup nows reg) \<noteq> NotFound"
proof -
  have "fold cleanup nows reg cid = Some c"
    using assms(1)
  proof (induction nows arbitrary: reg)
    case Nil
    then show ?case by simp
  next
    case (Cons now nows)
    from Cons.prems assms(2-4) have "cleanup now reg cid = Some c" by (rule cleanup_keeps)
    with Cons.IH [of "cleanup now reg"] show ?case by simp
  qed
  with assms(1) show ?thesis by (simp add: conversion_status_def)
qed

theorem cleanup_keeps_running_sessions_witness:
  "activeConversions (wrun running_run world0) s1 =
     Some \<lparr> conv_id = s1, cancelled = False, processes = [p1], startTime = 0,
         totalSentences = 1, progress = None, lastUpdate = None, completed = False,
         result = None, completedAt = None, error = None, failed = False,
         cancelledAt = None \<rparr>
   \<and> fold cleanup [60000, 120000, 86400000] (activeConversions (wrun running_run world0)) s1 =
     Some \<lparr> conv_id = s1, cancelled = False, processes = [p1], startTime = 0,
         totalSentences = 1, progress = None, lastUpdate = None, completed = False,
         result = None, completedAt = None, error = None, failed = False,
         cancelledAt = None \<rparr>
   \<and> conversion_status s1
       (fold cleanup [60000, 120000, 86400000] (activeConversions (wrun running_run world0)))
     \<noteq> NotFound"
proof -
  let ?c = "\<lparr> conv_id = s1, cancelled = False, processes = [p1], startTime = 0,
         totalSentences = 1, progress = None, lastUpdate = None, completed = False,
         result = None, completedAt = None, error = None, failed = False,
         cancelledAt = None \<rparr>"
  have f: "\<not> completed ?c" "\<not> failed ?c" "\<not> cancelled ?c" by simp_all
  from cleanup_keeps_running_sessions
    [of "activeConversions (wrun running_run world0)" s1 ?c "[60000, 120000, 86400000]"]
    running_run_registry f
  show ?thesis by blast
qed

section \<open>Properties of the text functions\<close>

text \<open>Evaluation: a \<open>let\<close> is unfolded once its value is known.\<close>

lemma Let_Nil: "Let [] f = f []"
  by simp

lemma Let_Cons: "Let (x # xs) f = f (x # xs)"
  by simp

lemma Let_Pair: "Let (a, b) f = f (a, b)"
  by simp

lemma Let_True: "Let True f = f True"
  by simp

lemma Let_False: "Let False f = f False"
  by simp

lemma Let_None: "Let None f = f None"
  by simp

lemma Let_Some: "Let (Some x) f = f (Some x)"
  by simp

lemma Let_Suc: "Let (Suc n) f = f (Suc n)"
  by simp

lemmas rx_defs = replace_def replace_with_def match_here_def counts_def last_char_def
  in_items_def chars_def not_chars_def space_def upper_def upper_or_opening_def is_space_def
  is_word_def canonicalize_def uncanonicalize_def trim_def expand_def capture_def substring_def
  js_def test_def Let_Nil Let_Cons Let_Pair Let_True Let_False Let_None Let_Some Let_Suc

lemmas hola_defs = hola_input_def hola_protected_def hola_map_def hola_placeholder_def
  hola_dr_def gomez_def como_estas_def como_estas_q_def hola_dr_gomez_def

lemma ya_ellipsis_once: "normalizeTextForTTS ya_ellipsis = js ''Ya..''"
  unfolding normalizeTextForTTS_def ya_ellipsis_def
  by (simp add: rx_defs cong: let_weak_cong)

lemma ya_ellipsis_twice: "normalizeTextForTTS (js ''Ya..'') = js ''Ya.''"
  unfolding normalizeTextForTTS_def
  by (simp add: rx_defs cong: let_weak_cong)

text \<open>
  C4: the normalizer is idempotent. The code is not, on a text with an ellipsis: the
  ellipsis character becomes three full stops, of which the rule for two full stops
  (written to keep an ellipsis) takes the last two, leaving two; a second pass takes these
  two and leaves one.
\<close>

theorem normalize_twice_differs:
  "normalizeTextForTTS ya_ellipsis = js ''Ya..''
   \<and> normalizeTextForTTS (normalizeTextForTTS ya_ellipsis) = js ''Ya.''
   \<and> normalizeTextForTTS (normalizeTextForTTS ya_ellipsis) \<noteq> normalizeTextForTTS ya_ellipsis"
  by (simp add: ya_ellipsis_once ya_ellipsis_twice) (simp add: js_def)

lemma hola_normalized: "normalizeTextForTTS hola_input = hola_input"
  unfolding normalizeTextForTTS_def hola_defs
  by (simp add: rx_defs cong: let_weak_cong)

lemma hola_protect:
  "protect hola_input =
     \<lparr> protectedText = hola_protected, protectionMap = hola_map, protectionCounter = 1 \<rparr>"
  unfolding protect_def abbreviations_def hola_defs
  by (simp add: protect_one_def protect_callback_def placeholder_of_def show_nat_digit rx_defs
      cong: let_weak_cong)

lemma hola_scan:
  "scan sentencePattern False None hola_protected 0 0 =
     [(17, 2, [(1, [46])]), (24, 2, [(1, [46])])]"
  unfolding sentencePattern_def hola_defs
  by (simp add: rx_defs cong: let_weak_cong)

lemma hola_exec:
  "exec_loop hola_protected [(17, 2, [(1, [46])]), (24, 2, [(1, [46])])] 0 [] =
     Some (25, [hola_placeholder, gomez])"
  unfolding hola_defs
  by (simp add: rx_defs cong: let_weak_cong)

lemma hola_remaining: "trim (drop 25 hola_protected) = como_estas"
  unfolding hola_defs
  by (simp add: rx_defs cong: let_weak_cong)

lemma hola_length: "length hola_protected = 37"
  unfolding hola_defs by (simp add: js_def)

lemma como_estas_not_empty: "como_estas \<noteq> []"
  unfolding hola_defs by simp

lemma hola_trim: "trim hola_input \<noteq> []"
  unfolding hola_defs by (simp add: rx_defs)

lemma hola_extract:
  "extract_sentences hola_protected = Some [hola_placeholder, gomez, como_estas]"
  unfolding extract_sentences_def hola_scan hola_exec
  by (simp add: hola_length hola_remaining como_estas_not_empty Let_def)

lemma hola_first: "process_sentence hola_map hola_placeholder = [hola_dr]"
  unfolding process_sentence_def enhanceSentenceForTTS_def restore_def hola_defs
  by (simp add: word_i_def rx_defs cong: let_weak_cong)

lemma hola_second: "process_sentence hola_map gomez = [gomez]"
  unfolding process_sentence_def enhanceSentenceForTTS_def restore_def hola_defs
  by (simp add: word_i_def rx_defs cong: let_weak_cong)

lemma hola_third: "process_sentence hola_map como_estas = [como_estas_q]"
  unfolding process_sentence_def enhanceSentenceForTTS_def restore_def hola_defs
  by (simp add: word_i_def rx_defs cong: let_weak_cong)

lemma hola_merge:
  "mergeShortFragments [hola_dr, gomez, como_estas_q] = [hola_dr_gomez, como_estas_q]"
  unfolding mergeShortFragments_def hola_defs
  by (simp add: wordCount_def rx_defs cong: let_weak_cong)

lemma hola_split: "splitSentences hola_input = Some [hola_dr_gomez, como_estas_q]"
proof -
  have "splitSentences hola_input =
     Some (mergeShortFragments (concat (map (process_sentence hola_map)
        [hola_placeholder, gomez, como_estas])))"
    unfolding splitSentences_def Let_def hola_normalized hola_protect
    by (simp add: hola_trim hola_extract)
  also have "\<dots> = Some (mergeShortFragments [hola_dr, gomez, como_estas_q])"
    by (simp add: hola_first hola_second hola_third)
  finally show ?thesis by (simp only: hola_merge)
qed

text \<open>
  C8: on the text \<open>Hola Dr. Gomez. ?Como estas\<close> (with its accents: o 243 in Gomez and
  Como, a 225 in estas, and the inverted question mark 191 before Como)
  \<open>splitSentences\<close> returns the two sentences \<open>Hola Dr. Gomez.\<close> and
  \<open>?Como estas?\<close>, the closing question mark added.
\<close>

theorem splitSentences_hola:
  "splitSentences
     (js ''Hola Dr. G'' @ [243] @ js ''mez. '' @ [191] @ js ''C'' @ [243]
        @ js ''mo est'' @ [225] @ js ''s'')
   = Some [js ''Hola Dr. G'' @ [243] @ js ''mez.'',
           [191] @ js ''C'' @ [243] @ js ''mo est'' @ [225] @ js ''s?'']"
  by (rule hola_split [unfolded hola_input_def hola_dr_gomez_def como_estas_q_def])

end
